theory Spec2Isabelle
  imports Main "HOL-Library.Word" "HOL-Library.Multiset"
  "HOL-Library.List_Lexorder"
begin

section \<open>Types and requirements\<close>

text \<open>
  A generic parameter is identified by its depth and index, both \<^verbatim>\<open>unsigned\<close>
  in the sources (\<^verbatim>\<open>getDepth()\<close>, \<^verbatim>\<open>GenericTypeParamType::get(depth, index, ctx)\<close>).
\<close>

datatype genericParam = GenericParam (getDepth: "32 word") (getIndex: "32 word")

text \<open>
  Modelled from the spec: the type representation (\<^verbatim>\<open>swift/AST/Types.h\<close>) is not among
  the sources. The spec names generic parameters, dependent member types
  (\<^verbatim>\<open>T.Member\<close>), concrete types with generic arguments, interfaces (protocols),
  in-context archetypes, the opaque type bound to the signature and parameter of its
  declaration, and the error sentinel; function types are what
  \<^verbatim>\<open>checkReferencedGenericParams\<close> casts the interface type to. Types are kept canonical,
  so \<^verbatim>\<open>getCanonicalType\<close> is the identity and \<^verbatim>\<open>isEqual\<close> is equality.
\<close>

datatype ty =
    GenericTypeParamType genericParam
  | DependentMemberType ty string
  | NominalType string "ty list"
  | ProtocolType string
  | ArchetypeType string
  | FunctionType "ty list" ty
  | OpaqueTypeArchetypeType nat genericParam
  | ErrorType

text \<open>Modelled from the spec: \<^verbatim>\<open>TypeBase::isTypeParameter\<close>, a generic parameter or a
  member type of one.\<close>

fun isTypeParameter :: "ty \<Rightarrow> bool" where
  "isTypeParameter (GenericTypeParamType p) = True"
| "isTypeParameter (DependentMemberType b n) = isTypeParameter b"
| "isTypeParameter (NominalType n args) = False"
| "isTypeParameter (ProtocolType n) = False"
| "isTypeParameter (ArchetypeType n) = False"
| "isTypeParameter (FunctionType ps r) = False"
| "isTypeParameter (OpaqueTypeArchetypeType sig p) = False"
| "isTypeParameter ErrorType = False"

text \<open>Modelled from the spec: \<^verbatim>\<open>is<GenericTypeParamType>()\<close>.\<close>

fun isGenericTypeParamType :: "ty \<Rightarrow> bool" where
  "isGenericTypeParamType (GenericTypeParamType p) = True"
| "isGenericTypeParamType (DependentMemberType b n) = False"
| "isGenericTypeParamType (NominalType n args) = False"
| "isGenericTypeParamType (ProtocolType n) = False"
| "isGenericTypeParamType (ArchetypeType n) = False"
| "isGenericTypeParamType (FunctionType ps r) = False"
| "isGenericTypeParamType (OpaqueTypeArchetypeType sig p) = False"
| "isGenericTypeParamType ErrorType = False"

text \<open>Modelled from the spec: \<^verbatim>\<open>getRootGenericParam\<close> strips the member accesses of a
  type parameter (the sources call it on type parameters only).\<close>

fun getRootGenericParam :: "ty \<Rightarrow> ty" where
  "getRootGenericParam (DependentMemberType b n) = getRootGenericParam b"
| "getRootGenericParam (GenericTypeParamType p) = GenericTypeParamType p"
| "getRootGenericParam (NominalType n args) = NominalType n args"
| "getRootGenericParam (ProtocolType n) = ProtocolType n"
| "getRootGenericParam (ArchetypeType n) = ArchetypeType n"
| "getRootGenericParam (FunctionType ps r) = FunctionType ps r"
| "getRootGenericParam (OpaqueTypeArchetypeType sig p) = OpaqueTypeArchetypeType sig p"
| "getRootGenericParam ErrorType = ErrorType"

text \<open>Modelled from the spec: the recursive type properties \<^verbatim>\<open>hasTypeParameter\<close> and
  \<^verbatim>\<open>hasError\<close>: some node of the type is a generic parameter, or the error sentinel.\<close>

fun hasTypeParameter :: "ty \<Rightarrow> bool" where
  "hasTypeParameter (GenericTypeParamType p) = True"
| "hasTypeParameter (DependentMemberType b n) = hasTypeParameter b"
| "hasTypeParameter (NominalType n args) = (\<exists>a \<in> set args. hasTypeParameter a)"
| "hasTypeParameter (ProtocolType n) = False"
| "hasTypeParameter (ArchetypeType n) = False"
| "hasTypeParameter (FunctionType ps r) = ((\<exists>a \<in> set ps. hasTypeParameter a) \<or> hasTypeParameter r)"
| "hasTypeParameter (OpaqueTypeArchetypeType sig p) = False"
| "hasTypeParameter ErrorType = False"

fun hasError :: "ty \<Rightarrow> bool" where
  "hasError (GenericTypeParamType p) = False"
| "hasError (DependentMemberType b n) = hasError b"
| "hasError (NominalType n args) = (\<exists>a \<in> set args. hasError a)"
| "hasError (ProtocolType n) = False"
| "hasError (ArchetypeType n) = False"
| "hasError (FunctionType ps r) = ((\<exists>a \<in> set ps. hasError a) \<or> hasError r)"
| "hasError (OpaqueTypeArchetypeType sig p) = False"
| "hasError ErrorType = True"

text \<open>Modelled from the spec: a layout tag; \<^verbatim>\<open>isClass\<close> is the tag "is a reference
  type" (\<^verbatim>\<open>swift/AST/LayoutConstraint.h\<close> is not among the sources).\<close>

datatype layoutConstraint = ClassLayout | NativeClassLayout | TrivialLayout | RefCountedObjectLayout
  | UnknownLayout

fun isClass :: "layoutConstraint \<Rightarrow> bool" where
  "isClass ClassLayout = True"
| "isClass NativeClassLayout = True"
| "isClass TrivialLayout = False"
| "isClass RefCountedObjectLayout = False"
| "isClass UnknownLayout = False"

datatype RequirementKind = Conformance | Superclass | SameType | Layout

text \<open>
  A requirement is a kind, a subject and, by kind, an interface, a class type, another
  type or a layout tag. The interface of a conformance requirement is a protocol type,
  which \<^verbatim>\<open>checkGenericArguments\<close> obtains by \<^verbatim>\<open>castTo<ProtocolType>\<close>.
\<close>

datatype requirement =
    ConformanceReq ty string
  | SuperclassReq ty ty
  | SameTypeReq ty ty
  | LayoutReq ty layoutConstraint

fun getKind :: "requirement \<Rightarrow> RequirementKind" where
  "getKind (ConformanceReq t p) = Conformance"
| "getKind (SuperclassReq t s) = Superclass"
| "getKind (SameTypeReq t s) = SameType"
| "getKind (LayoutReq t l) = Layout"

fun getFirstType :: "requirement \<Rightarrow> ty" where
  "getFirstType (ConformanceReq t p) = t"
| "getFirstType (SuperclassReq t s) = t"
| "getFirstType (SameTypeReq t s) = t"
| "getFirstType (LayoutReq t l) = t"

text \<open>The second type; a layout requirement has none (the sources read it only when
  the kind is not \<^verbatim>\<open>Layout\<close>, and leave the \<^verbatim>\<open>Type\<close> null otherwise).\<close>

fun getSecondType :: "requirement \<Rightarrow> ty option" where
  "getSecondType (ConformanceReq t p) = Some (ProtocolType p)"
| "getSecondType (SuperclassReq t s) = Some s"
| "getSecondType (SameTypeReq t s) = Some s"
| "getSecondType (LayoutReq t l) = None"

text \<open>
  Modelled from the spec: \<^verbatim>\<open>Requirement::subst\<close> (4.1) applies a type substitution to the
  sides of a requirement and fails when the substitution cannot produce a type. The
  substitution of types (\<^verbatim>\<open>Type::subst\<close> under the call's substitutions, conformances
  and options) is a parameter; a protocol type has nothing to substitute.
\<close>

fun subst :: "(ty \<Rightarrow> ty option) \<Rightarrow> requirement \<Rightarrow> requirement option" where
  "subst f (ConformanceReq t p) =
     (case f t of None \<Rightarrow> None | Some t' \<Rightarrow> Some (ConformanceReq t' p))"
| "subst f (SuperclassReq t s) =
     (case f t of None \<Rightarrow> None
      | Some t' \<Rightarrow> (case f s of None \<Rightarrow> None | Some s' \<Rightarrow> Some (SuperclassReq t' s')))"
| "subst f (SameTypeReq t s) =
     (case f t of None \<Rightarrow> None
      | Some t' \<Rightarrow> (case f s of None \<Rightarrow> None | Some s' \<Rightarrow> Some (SameTypeReq t' s')))"
| "subst f (LayoutReq t l) =
     (case f t of None \<Rightarrow> None | Some t' \<Rightarrow> Some (LayoutReq t' l))"

section \<open>Checking bound generic type arguments\<close>

datatype RequirementCheckResult = Success | Failure | SubstitutionFailure

text \<open>A conformance found by \<^verbatim>\<open>conformsToProtocol\<close>, with its conditional requirements.\<close>

datatype conformance = ProtocolConformanceRef string (getConditionalRequirements: "requirement list")

text \<open>\<^verbatim>\<open>ParentConditionalConformance\<close>: the conforming type and the protocol.\<close>

type_synonym parentConformance = "ty \<times> string"

text \<open>A source location; \<^verbatim>\<open>None\<close> is the invalid location.\<close>

type_synonym SourceLoc = "nat option"

definition isValid :: "SourceLoc \<Rightarrow> bool" where
  "isValid loc = (loc \<noteq> None)"

datatype diagID =
    type_does_not_conform_owner
  | type_is_not_a_class
  | type_does_not_inherit
  | types_not_equal
  | type_does_not_inherit_or_conform_requirement
  | anyobject_requirement
  | types_not_equal_requirement

text \<open>
  What the checker hands to its collaborators, in call order: the primary diagnostic
  (location, message, owner, first and second type), the note (location, message, raw
  first and second type, bindings text), the rendering of the conformance stack
  (\<^verbatim>\<open>diagnoseConformanceStack\<close>, called with the whole parent chain), and the listener's
  \<^verbatim>\<open>satisfiedConformance\<close> callback.
\<close>

datatype event =
    Diagnose SourceLoc diagID ty ty "ty option"
  | DiagnoseNote SourceLoc diagID ty "ty option" string
  | DiagnoseConformanceStack SourceLoc "parentConformance list"
  | SatisfiedConformance ty ty conformance

text \<open>\<^verbatim>\<open>GenericRequirementsCheckListener\<close>: its two queries, as functions of their
  arguments.\<close>

record listener =
  shouldCheck :: "RequirementKind \<Rightarrow> ty \<Rightarrow> ty option \<Rightarrow> bool"
  diagnoseUnsatisfiedRequirement ::
    "requirement \<Rightarrow> ty \<Rightarrow> ty option \<Rightarrow> parentConformance list \<Rightarrow> bool"

text \<open>
  The arguments of \<^verbatim>\<open>checkGenericArguments\<close> other than the requirements, with the
  primitives of the type system it calls: \<^verbatim>\<open>substType\<close> is \<^verbatim>\<open>Type::subst\<close> under the
  call's substitutions, conformances and options; \<^verbatim>\<open>conformsToProtocol\<close> is called with
  \<^verbatim>\<open>SkipConditionalRequirements\<close> set.
\<close>

record checkArgs =
  loc :: SourceLoc
  noteLoc :: SourceLoc
  owner :: ty
  genericParams :: "genericParam list"
  substitutions :: "genericParam \<Rightarrow> ty option"
  substType :: "ty \<Rightarrow> ty option"
  mapTypeIntoContext :: "ty \<Rightarrow> ty"
  conformsToProtocol :: "ty \<Rightarrow> string \<Rightarrow> conformance option"
  satisfiesClassConstraint :: "ty \<Rightarrow> bool"
  isExactSuperclassOf :: "ty \<Rightarrow> ty \<Rightarrow> bool"
  listenerOf :: "listener option"
  getName :: "genericParam \<Rightarrow> string"
  getString :: "ty \<Rightarrow> string"

subsection \<open>gatherGenericParamBindingsText\<close>

text \<open>\<^verbatim>\<open>type.visit\<close>: the generic parameters at the nodes of a type.\<close>

fun visitGenericParams :: "ty \<Rightarrow> genericParam set" where
  "visitGenericParams (GenericTypeParamType p) = {p}"
| "visitGenericParams (DependentMemberType b n) = visitGenericParams b"
| "visitGenericParams (NominalType n args) = (\<Union>a \<in> set args. visitGenericParams a)"
| "visitGenericParams (ProtocolType n) = {}"
| "visitGenericParams (ArchetypeType n) = {}"
| "visitGenericParams (FunctionType ps r) =
     (\<Union>a \<in> set ps. visitGenericParams a) \<union> visitGenericParams r"
| "visitGenericParams (OpaqueTypeArchetypeType sig p) = {}"
| "visitGenericParams ErrorType = {}"

text \<open>The loop over \<^verbatim>\<open>genericParams\<close>; \<^verbatim>\<open>None\<close> is the early \<^verbatim>\<open>return ""\<close>.\<close>

fun gatherBindings :: "checkArgs \<Rightarrow> genericParam set \<Rightarrow> genericParam list \<Rightarrow> string \<Rightarrow> string option"
where
  "gatherBindings a known [] result = Some result"
| "gatherBindings a known (gp # gps) result =
     (if gp \<notin> known then gatherBindings a known gps result
      else
        (let result1 = (if result = [] then '' [with '' else result @ '', '');
             result2 = result1 @ getName a gp @ '' = ''
         in case substitutions a gp of
              None \<Rightarrow> None
            | Some t \<Rightarrow> gatherBindings a known gps (result2 @ getString a t)))"

definition gatherGenericParamBindingsText ::
  "checkArgs \<Rightarrow> ty option list \<Rightarrow> genericParam list \<Rightarrow> string" where
  "gatherGenericParamBindingsText a types gps =
     (let knownGenericParams =
            (\<Union>t \<in> set types. case t of None \<Rightarrow> {} | Some t' \<Rightarrow> visitGenericParams t')
      in if knownGenericParams = {} then ''''
         else (case gatherBindings a knownGenericParams gps '''' of
                 None \<Rightarrow> ''''
               | Some result \<Rightarrow> result @ '']''))"

subsection \<open>checkGenericArguments\<close>

text \<open>\<^verbatim>\<open>RequirementSet\<close>: a list of requirements and the conditional conformances that
  led to it.\<close>

record RequirementSet =
  Requirements :: "requirement list"
  Parents :: "parentConformance list"

text \<open>
  The local state of the check: the \<^verbatim>\<open>valid\<close> flag, the work-list \<^verbatim>\<open>pendingReqs\<close> (the
  head of the list is the back of the vector, where \<^verbatim>\<open>push_back\<close> and
  \<^verbatim>\<open>pop_back_val\<close> work) and the events emitted so far.
\<close>

record checkState =
  valid :: bool
  pendingReqs :: "RequirementSet list"
  events :: "event list"

text \<open>The body of the inner loop either returns from the function or goes on to the
  next requirement (\<^verbatim>\<open>continue\<close>).\<close>

datatype step = Return RequirementCheckResult checkState | Continue checkState

text \<open>\<^verbatim>\<open>if (ty->hasTypeParameter()) ty = dc->mapTypeIntoContext(ty)\<close>.\<close>

definition intoContext :: "checkArgs \<Rightarrow> ty \<Rightarrow> ty" where
  "intoContext a t = (if hasTypeParameter t then mapTypeIntoContext a t else t)"

text \<open>
  The tail of the loop body after the \<^verbatim>\<open>switch\<close>, for a requirement that failed: the
  listener may take the diagnosis over; otherwise, with a valid location, the primary
  diagnostic, the note and the conformance stack are emitted. All paths return
  \<^verbatim>\<open>Failure\<close>.
\<close>

definition requirementFailed ::
  "checkArgs \<Rightarrow> parentConformance list \<Rightarrow> requirement \<Rightarrow> ty \<Rightarrow> ty option \<Rightarrow>
   diagID \<Rightarrow> diagID \<Rightarrow> checkState \<Rightarrow> step" where
  "requirementFailed a parents rawReq firstType secondType diagnostic diagnosticNote st =
     (if (case listenerOf a of
            None \<Rightarrow> False
          | Some l \<Rightarrow> diagnoseUnsatisfiedRequirement l rawReq firstType secondType parents)
      then Return Failure st
      else if isValid (loc a) then
        (let rawFirstType = getFirstType rawReq;
             rawSecondType = getSecondType rawReq;
             genericParamBindingsText =
               (if genericParams a \<noteq> []
                then gatherGenericParamBindingsText a [Some rawFirstType, rawSecondType]
                       (genericParams a)
                else [])
         in Return Failure
              (st\<lparr>events := events st @
                 [Diagnose (loc a) diagnostic (owner a) firstType secondType,
                  DiagnoseNote (noteLoc a) diagnosticNote rawFirstType rawSecondType
                    genericParamBindingsText,
                  DiagnoseConformanceStack (noteLoc a) parents]\<rparr>))
      else Return Failure st)"

text \<open>
  One iteration of the inner loop, for the requirement \<^verbatim>\<open>rawReq\<close> of a set whose parent
  chain is \<^verbatim>\<open>parents\<close>.
\<close>

definition checkRequirement ::
  "checkArgs \<Rightarrow> parentConformance list \<Rightarrow> requirement \<Rightarrow> checkState \<Rightarrow> step" where
  "checkRequirement a parents rawReq st =
     (case (if parents = [] then subst (substType a) rawReq else Some rawReq) of
        None \<Rightarrow> Continue (st\<lparr>valid := False\<rparr>)
      | Some req \<Rightarrow>
         (let kind = getKind req;
              rawFirstType = getFirstType rawReq;
              firstType = intoContext a (getFirstType req);
              secondType = map_option (intoContext a) (getSecondType req)
          in if hasError firstType \<or> (case secondType of None \<Rightarrow> False | Some s \<Rightarrow> hasError s)
             then Continue (st\<lparr>valid := False\<rparr>)
             else if (case listenerOf a of
                        None \<Rightarrow> False
                      | Some l \<Rightarrow> \<not> shouldCheck l kind firstType secondType)
             then Continue st
             else
               (case req of
                  ConformanceReq t proto \<Rightarrow>
                    (case conformsToProtocol a firstType proto of
                       Some conformance \<Rightarrow>
                         (let st1 =
                                (if listenerOf a \<noteq> None \<and> valid st \<and> parents = []
                                 then st\<lparr>events := events st @
                                        [SatisfiedConformance rawFirstType firstType conformance]\<rparr>
                                 else st);
                              conditionalReqs = getConditionalRequirements conformance
                          in if conditionalReqs \<noteq> []
                             then Continue
                                    (st1\<lparr>pendingReqs :=
                                       \<lparr>Requirements = conditionalReqs,
                                        Parents = parents @ [(firstType, proto)]\<rparr>
                                       # pendingReqs st1\<rparr>)
                             else Continue st1)
                     | None \<Rightarrow>
                         (if parents = [] then Return Failure st
                          else requirementFailed a parents rawReq firstType secondType
                                 type_does_not_conform_owner
                                 type_does_not_inherit_or_conform_requirement st))
                | LayoutReq t layout \<Rightarrow>
                    (if isClass layout \<and> \<not> satisfiesClassConstraint a firstType
                     then requirementFailed a parents rawReq firstType secondType
                            type_is_not_a_class anyobject_requirement st
                     else Continue st)
                | SuperclassReq t s \<Rightarrow>
                    (if \<not> isExactSuperclassOf a (intoContext a s) firstType
                     then requirementFailed a parents rawReq firstType secondType
                            type_does_not_inherit
                            type_does_not_inherit_or_conform_requirement st
                     else Continue st)
                | SameTypeReq t s \<Rightarrow>
                    (if firstType \<noteq> intoContext a s
                     then requirementFailed a parents rawReq firstType secondType
                            types_not_equal types_not_equal_requirement st
                     else Continue st))))"

text \<open>The inner loop over the requirements of the current set.\<close>

fun checkRequirements ::
  "checkArgs \<Rightarrow> parentConformance list \<Rightarrow> requirement list \<Rightarrow> checkState \<Rightarrow> step" where
  "checkRequirements a parents [] st = Continue st"
| "checkRequirements a parents (rawReq # rest) st =
     (case checkRequirement a parents rawReq st of
        Return r st' \<Rightarrow> Return r st'
      | Continue st' \<Rightarrow> checkRequirements a parents rest st')"

text \<open>
  The outer loop \<^verbatim>\<open>while (!pendingReqs.empty())\<close>. Conditional conformances may push
  sets without bound, so the loop is given fuel, one unit per test of the loop
  condition; \<^verbatim>\<open>None\<close> means the fuel ran out before the function returned.
\<close>

fun checkPending ::
  "nat \<Rightarrow> checkArgs \<Rightarrow> checkState \<Rightarrow> (RequirementCheckResult \<times> event list) option" where
  "checkPending 0 a st = None"
| "checkPending (Suc n) a st =
     (case pendingReqs st of
        [] \<Rightarrow> Some (if valid st then Success else SubstitutionFailure, events st)
      | current # rest \<Rightarrow>
          (case checkRequirements a (Parents current) (Requirements current)
                  (st\<lparr>pendingReqs := rest\<rparr>) of
             Return r st' \<Rightarrow> Some (r, events st')
           | Continue st' \<Rightarrow> checkPending n a st'))"

definition initialState :: "requirement list \<Rightarrow> checkState" where
  "initialState requirements =
     \<lparr>valid = True,
      pendingReqs = [\<lparr>Requirements = requirements, Parents = []\<rparr>],
      events = []\<rparr>"

definition checkGenericArguments ::
  "nat \<Rightarrow> checkArgs \<Rightarrow> requirement list \<Rightarrow> (RequirementCheckResult \<times> event list) option"
where
  "checkGenericArguments fuel a requirements = checkPending fuel a (initialState requirements)"

subsection \<open>What the spec says a requirement's check is\<close>

text \<open>
  The spec (4.4) describes the check of one requirement in steps: obtain the concrete
  subject and constraint types (substituting only at the top level, then mapping
  residual dependent types into the caller's context); an unrecoverable type is a
  substitution failure; the listener may veto the check; otherwise the requirement is
  dispatched by kind. The definitions below follow those words, for use in the
  statements about the work-list loop above.
\<close>

fun mapRequirement :: "(ty \<Rightarrow> ty) \<Rightarrow> requirement \<Rightarrow> requirement" where
  "mapRequirement f (ConformanceReq t p) = ConformanceReq (f t) p"
| "mapRequirement f (SuperclassReq t s) = SuperclassReq (f t) (f s)"
| "mapRequirement f (SameTypeReq t s) = SameTypeReq (f t) (f s)"
| "mapRequirement f (LayoutReq t l) = LayoutReq (f t) l"

text \<open>The requirement with its concrete types, or \<^verbatim>\<open>None\<close> for a substitution failure
  (no type produced, or a side that carries the error type).\<close>

definition concreteRequirement ::
  "checkArgs \<Rightarrow> parentConformance list \<Rightarrow> requirement \<Rightarrow> requirement option" where
  "concreteRequirement a parents rawReq =
     (case (if parents = [] then subst (substType a) rawReq else Some rawReq) of
        None \<Rightarrow> None
      | Some req \<Rightarrow>
          (let c = mapRequirement (intoContext a) req
           in if hasError (getFirstType c) \<or>
                 (case getSecondType c of None \<Rightarrow> False | Some s \<Rightarrow> hasError s)
              then None else Some c))"

text \<open>The listener, if there is one, declines to have the concrete requirement checked.\<close>

definition vetoed :: "checkArgs \<Rightarrow> requirement \<Rightarrow> bool" where
  "vetoed a c =
     (case listenerOf a of
        None \<Rightarrow> False
      | Some l \<Rightarrow> \<not> shouldCheck l (getKind c) (getFirstType c) (getSecondType c))"

text \<open>The dispatch by kind on a concrete requirement: conformance lookup, is-subclass
  check, type equality, tag-specific layout predicate.\<close>

fun holds :: "checkArgs \<Rightarrow> requirement \<Rightarrow> bool" where
  "holds a (ConformanceReq t p) = (conformsToProtocol a t p \<noteq> None)"
| "holds a (SuperclassReq t s) = isExactSuperclassOf a s t"
| "holds a (SameTypeReq t s) = (t = s)"
| "holds a (LayoutReq t l) = (\<not> isClass l \<or> satisfiesClassConstraint a t)"

text \<open>A requirement is violated when it has concrete types, is not vetoed and its
  check fails.\<close>

definition violated :: "checkArgs \<Rightarrow> parentConformance list \<Rightarrow> requirement \<Rightarrow> bool" where
  "violated a parents rawReq =
     (case concreteRequirement a parents rawReq of
        None \<Rightarrow> False
      | Some c \<Rightarrow> \<not> vetoed a c \<and> \<not> holds a c)"

text \<open>The diagnostic and the note the \<^verbatim>\<open>switch\<close> selects for a failed requirement.\<close>

fun diagnosticOf :: "requirement \<Rightarrow> diagID" where
  "diagnosticOf (ConformanceReq t p) = type_does_not_conform_owner"
| "diagnosticOf (SuperclassReq t s) = type_does_not_inherit"
| "diagnosticOf (SameTypeReq t s) = types_not_equal"
| "diagnosticOf (LayoutReq t l) = type_is_not_a_class"

fun diagnosticNoteOf :: "requirement \<Rightarrow> diagID" where
  "diagnosticNoteOf (ConformanceReq t p) = type_does_not_inherit_or_conform_requirement"
| "diagnosticNoteOf (SuperclassReq t s) = type_does_not_inherit_or_conform_requirement"
| "diagnosticNoteOf (SameTypeReq t s) = types_not_equal_requirement"
| "diagnosticNoteOf (LayoutReq t l) = anyobject_requirement"

text \<open>
  The spec's reading of a whole check (4.4, result precedence): \<^verbatim>\<open>requirementsHold a
  parents reqs b\<close> says that every requirement of the list, and every conditional
  requirement of the conformances that satisfy them, is checked and none is violated;
  \<^verbatim>\<open>b\<close> tells whether all of them substituted. It is defined by recursion into the
  conditional requirements of each conformance, not through a work-list, and a
  derivation is finite.
\<close>

inductive requirementsHold ::
  "checkArgs \<Rightarrow> parentConformance list \<Rightarrow> requirement list \<Rightarrow> bool \<Rightarrow> bool"
  for a :: checkArgs where
  NoRequirement: "requirementsHold a parents [] True"
| SubstitutionFails:
    "concreteRequirement a parents r = None \<Longrightarrow> requirementsHold a parents rs b \<Longrightarrow>
     requirementsHold a parents (r # rs) False"
| Vetoed:
    "concreteRequirement a parents r = Some c \<Longrightarrow> vetoed a c \<Longrightarrow>
     requirementsHold a parents rs b \<Longrightarrow> requirementsHold a parents (r # rs) b"
| Conforms:
    "concreteRequirement a parents r = Some (ConformanceReq t p) \<Longrightarrow>
     \<not> vetoed a (ConformanceReq t p) \<Longrightarrow>
     conformsToProtocol a t p = Some conf \<Longrightarrow>
     requirementsHold a (parents @ [(t, p)]) (getConditionalRequirements conf) b1 \<Longrightarrow>
     requirementsHold a parents rs b2 \<Longrightarrow>
     requirementsHold a parents (r # rs) (b1 \<and> b2)"
| Satisfied:
    "concreteRequirement a parents r = Some c \<Longrightarrow> \<not> vetoed a c \<Longrightarrow>
     getKind c \<noteq> Conformance \<Longrightarrow> holds a c \<Longrightarrow>
     requirementsHold a parents rs b \<Longrightarrow> requirementsHold a parents (r # rs) b"

text \<open>The same for the sets of a work-list, top first.\<close>

inductive pendingHold :: "checkArgs \<Rightarrow> RequirementSet list \<Rightarrow> bool \<Rightarrow> bool"
  for a :: checkArgs where
  NoSet: "pendingHold a [] True"
| Set:
    "requirementsHold a (Parents c) (Requirements c) b1 \<Longrightarrow> pendingHold a cs b2 \<Longrightarrow>
     pendingHold a (c # cs) (b1 \<and> b2)"

subsection \<open>The loop body on the concrete requirement\<close>

text \<open>
  Auxiliary forms of the loop body, proved equal to \<^verbatim>\<open>checkRequirement\<close> below
  (\<^verbatim>\<open>checkRequirement_alt\<close>): the state after a conformance was found, the events of a
  failure, and the dispatch on the concrete requirement.
\<close>

definition conformanceFound ::
  "checkArgs \<Rightarrow> parentConformance list \<Rightarrow> requirement \<Rightarrow> ty \<Rightarrow> string \<Rightarrow> conformance \<Rightarrow>
   checkState \<Rightarrow> checkState" where
  "conformanceFound a parents rawReq t p conf st =
     (let st1 = (if listenerOf a \<noteq> None \<and> valid st \<and> parents = []
                 then st\<lparr>events := events st @ [SatisfiedConformance (getFirstType rawReq) t conf]\<rparr>
                 else st)
      in if getConditionalRequirements conf \<noteq> []
         then st1\<lparr>pendingReqs :=
                \<lparr>Requirements = getConditionalRequirements conf, Parents = parents @ [(t, p)]\<rparr>
                # pendingReqs st1\<rparr>
         else st1)"

definition failureEvents ::
  "checkArgs \<Rightarrow> parentConformance list \<Rightarrow> requirement \<Rightarrow> requirement \<Rightarrow> event list" where
  "failureEvents a parents rawReq c =
     (if (case listenerOf a of
            None \<Rightarrow> False
          | Some l \<Rightarrow>
              diagnoseUnsatisfiedRequirement l rawReq (getFirstType c) (getSecondType c) parents)
      then []
      else if isValid (loc a) then
        [Diagnose (loc a) (diagnosticOf c) (owner a) (getFirstType c) (getSecondType c),
         DiagnoseNote (noteLoc a) (diagnosticNoteOf c) (getFirstType rawReq) (getSecondType rawReq)
           (if genericParams a \<noteq> []
            then gatherGenericParamBindingsText a [Some (getFirstType rawReq), getSecondType rawReq]
                   (genericParams a)
            else []),
         DiagnoseConformanceStack (noteLoc a) parents]
      else [])"

definition checkConcrete ::
  "checkArgs \<Rightarrow> parentConformance list \<Rightarrow> requirement \<Rightarrow> requirement \<Rightarrow> checkState \<Rightarrow> step" where
  "checkConcrete a ps r c st =
     (if vetoed a c then Continue st
      else case c of
         ConformanceReq t p \<Rightarrow>
           (case conformsToProtocol a t p of
              Some conf \<Rightarrow> Continue (conformanceFound a ps r t p conf st)
            | None \<Rightarrow> if ps = [] then Return Failure st
                      else Return Failure (st\<lparr>events := events st @ failureEvents a ps r c\<rparr>))
       | _ \<Rightarrow> if holds a c then Continue st
              else Return Failure (st\<lparr>events := events st @ failureEvents a ps r c\<rparr>))"

text \<open>A work-list runs through with flag \<^verbatim>\<open>b\<close>: from any \<^verbatim>\<open>valid\<close> flag and events, some
  fuel lets the outer loop empty it and return, with \<^verbatim>\<open>Success\<close> exactly when the flag
  was set and \<^verbatim>\<open>b\<close> holds.\<close>

definition runsThrough :: "checkArgs \<Rightarrow> RequirementSet list \<Rightarrow> bool \<Rightarrow> bool" where
  "runsThrough a P b =
     (\<forall>v e. \<exists>n e'. checkPending n a \<lparr>valid = v, pendingReqs = P, events = e\<rparr> =
        Some (if v \<and> b then Success else SubstitutionFailure, e'))"

section \<open>Referenced generic parameters\<close>

text \<open>A generic signature: its generic parameters, in order, and its requirements.\<close>

record GenericSignature =
  getGenericParams :: "genericParam list"
  getRequirements :: "requirement list"

text \<open>
  \<^verbatim>\<open>ReferencedGenericTypeWalker\<close>: \<^verbatim>\<open>walkToTypePre\<close> skips a type without type parameters,
  records a type parameter (a generic parameter or a dependent member type) without
  looking into it, and otherwise continues into the children. The result is what one
  walk adds to \<^verbatim>\<open>ReferencedGenericParams\<close>.
\<close>

fun walk :: "ty \<Rightarrow> ty set" where
  "walk (GenericTypeParamType p) =
     (if \<not> hasTypeParameter (GenericTypeParamType p) then {}
      else if isTypeParameter (GenericTypeParamType p) then {GenericTypeParamType p}
      else {})"
| "walk (DependentMemberType b n) =
     (if \<not> hasTypeParameter (DependentMemberType b n) then {}
      else if isTypeParameter (DependentMemberType b n) then {DependentMemberType b n}
      else walk b)"
| "walk (NominalType n args) =
     (if \<not> hasTypeParameter (NominalType n args) then {}
      else if isTypeParameter (NominalType n args) then {NominalType n args}
      else (\<Union>a \<in> set args. walk a))"
| "walk (FunctionType ps r) =
     (if \<not> hasTypeParameter (FunctionType ps r) then {}
      else if isTypeParameter (FunctionType ps r) then {FunctionType ps r}
      else (\<Union>a \<in> set ps. walk a) \<union> walk r)"
| "walk (ProtocolType n) = {}"
| "walk (ArchetypeType n) = {}"
| "walk (OpaqueTypeArchetypeType sig p) = {}"
| "walk ErrorType = {}"

text \<open>The type parameters used by the types of a requirement: the first type, and the
  second for a superclass or same-type requirement, each walked only if it has a type
  parameter.\<close>

definition genericParamsUsedByRequirementTypes :: "requirement \<Rightarrow> ty set" where
  "genericParamsUsedByRequirementTypes req =
     (let first = getFirstType req;
          second = (case getKind req of
                      Superclass \<Rightarrow> getSecondType req
                    | SameType \<Rightarrow> getSecondType req
                    | Conformance \<Rightarrow> None
                    | Layout \<Rightarrow> None)
      in (if hasTypeParameter first then walk first else {}) \<union>
         (case second of
            None \<Rightarrow> {}
          | Some s \<Rightarrow> if hasTypeParameter s then walk s else {}))"

text \<open>
  \<^verbatim>\<open>reqTypesVisitor\<close>, with the captured set passed in and out: if the root of one of
  the collected types is known to be referenced, every collected generic parameter
  (dependent member types are ignored) is inserted; the flag tells whether an insertion
  was new.
\<close>

definition reqTypesVisitor :: "ty set \<Rightarrow> requirement \<Rightarrow> bool \<times> ty set" where
  "reqTypesVisitor referencedGenericParams req =
     (let used = genericParamsUsedByRequirementTypes req
      in if \<exists>t \<in> used. getRootGenericParam t \<in> referencedGenericParams
         then (\<exists>t \<in> used. isGenericTypeParamType t \<and> t \<notin> referencedGenericParams,
               referencedGenericParams \<union> {t \<in> used. isGenericTypeParamType t})
         else (False, referencedGenericParams))"

text \<open>The \<^verbatim>\<open>for\<close> loop over the requirements inside the fixed-point loop.\<close>

fun visitRequirements :: "requirement list \<Rightarrow> ty set \<Rightarrow> bool \<times> ty set" where
  "visitRequirements [] referenced = (False, referenced)"
| "visitRequirements (req # reqs) referenced =
     (case reqTypesVisitor referenced req of
        (found, referenced1) \<Rightarrow>
          (case visitRequirements reqs referenced1 of
             (foundRest, referenced2) \<Rightarrow> (found \<or> foundRest, referenced2)))"

text \<open>All generic parameters the requirements can ever insert.\<close>

definition insertable :: "requirement list \<Rightarrow> ty set" where
  "insertable reqs =
     (\<Union>req \<in> set reqs. {t \<in> genericParamsUsedByRequirementTypes req. isGenericTypeParamType t})"

text \<open>\<^verbatim>\<open>FindReferencedGenericParamsInRequirements\<close>: the \<^verbatim>\<open>while (true)\<close> loop, run until a
  pass over the requirements finds nothing new.\<close>

function findReferencedGenericParamsInRequirements :: "requirement list \<Rightarrow> ty set \<Rightarrow> ty set"
where
  "findReferencedGenericParamsInRequirements reqs referenced =
     (case visitRequirements reqs referenced of
        (foundNewReferencedGenericParam, referenced') \<Rightarrow>
          if foundNewReferencedGenericParam
          then findReferencedGenericParamsInRequirements reqs referenced'
          else referenced')"
  by pat_completeness auto
termination
proof (relation "measure (\<lambda>(reqs, referenced). card (insertable reqs - referenced))")
  show "wf (measure (\<lambda>(reqs, referenced). card (insertable reqs - referenced)))"
    by simp
next
  fix reqs :: "requirement list" and referenced :: "ty set" and found referenced'
  assume p: "(found, referenced') = visitRequirements reqs referenced" and found: "found"
  have walk_finite: "finite (walk t)" for t
    by (induction t rule: walk.induct) auto
  have used_finite: "finite (genericParamsUsedByRequirementTypes r)" for r
    by (auto simp: genericParamsUsedByRequirementTypes_def Let_def walk_finite
        split: option.splits RequirementKind.splits)
  have fin: "finite (insertable reqs)"
    by (simp add: insertable_def used_finite)
  have step: "referenced \<subseteq> snd (reqTypesVisitor referenced r) \<and>
      snd (reqTypesVisitor referenced r) \<subseteq>
        referenced \<union> {t \<in> genericParamsUsedByRequirementTypes r. isGenericTypeParamType t} \<and>
      (fst (reqTypesVisitor referenced r) \<longrightarrow> snd (reqTypesVisitor referenced r) \<noteq> referenced)"
    for referenced r
    by (auto simp: reqTypesVisitor_def Let_def)
  have pass: "R \<subseteq> snd (visitRequirements rs R) \<and>
      snd (visitRequirements rs R) \<subseteq> R \<union> insertable rs \<and>
      (fst (visitRequirements rs R) \<longrightarrow> snd (visitRequirements rs R) \<noteq> R)" for rs R
  proof (induction rs arbitrary: R)
    case Nil
    show ?case by simp
  next
    case (Cons r rs)
    obtain f1 R1 where v1: "reqTypesVisitor R r = (f1, R1)" by (cases "reqTypesVisitor R r")
    obtain f2 R2 where v2: "visitRequirements rs R1 = (f2, R2)"
      by (cases "visitRequirements rs R1")
    from step [of R r] v1 have s1: "R \<subseteq> R1"
      "R1 \<subseteq> R \<union> {t \<in> genericParamsUsedByRequirementTypes r. isGenericTypeParamType t}"
      "f1 \<longrightarrow> R1 \<noteq> R"
      by simp_all
    from Cons.IH [of R1] v2 have s2: "R1 \<subseteq> R2" "R2 \<subseteq> R1 \<union> insertable rs" "f2 \<longrightarrow> R2 \<noteq> R1"
      by simp_all
    have ins: "insertable (r # rs) =
        {t \<in> genericParamsUsedByRequirementTypes r. isGenericTypeParamType t} \<union> insertable rs"
      by (simp add: insertable_def)
    from s1 s2 have "R \<subseteq> R2" "R2 \<subseteq> R \<union> insertable (r # rs)" "f1 \<or> f2 \<longrightarrow> R2 \<noteq> R"
      unfolding ins by blast+
    with v1 v2 show ?case by simp
  qed
  have eq: "visitRequirements reqs referenced = (found, referenced')"
    using p by simp
  from pass [of referenced reqs] found
  have sub: "referenced \<subset> referenced'" and bound: "referenced' \<subseteq> referenced \<union> insertable reqs"
    unfolding eq by auto
  have "insertable reqs - referenced' \<subset> insertable reqs - referenced"
    using sub bound by blast
  with fin have "card (insertable reqs - referenced') < card (insertable reqs - referenced)"
    by (simp add: psubset_card_mono)
  then show "((reqs, referenced'), (reqs, referenced)) \<in>
      measure (\<lambda>(reqs, referenced). card (insertable reqs - referenced))"
    by simp
qed

text \<open>Faults of the sources where a cast or an array access has no value.\<close>

datatype fault = BadCast | EmptyArray | NullDereference

text \<open>What \<^verbatim>\<open>checkReferencedGenericParams\<close> reads of the declaration and its context:
  whether it is an accessor, its own generic parameter list (none when the pointer is
  null), the generic signature of the context and the interface type.\<close>

record GenericContext =
  isAccessorDecl :: bool
  getGenericParamList :: "genericParam list option"
  getGenericSignatureOfContext :: GenericSignature
  getInterfaceType :: ty

datatype declDiagnostic = unreferenced_generic_parameter genericParam

text \<open>
  The state of the final loop: the referenced set of the walker, the \<^verbatim>\<open>requirements\<close>
  array (empty until the requirements have been searched), the interface type and the
  invalid bit of the declaration, and the diagnostics.
\<close>

record referencedState =
  referencedGenericParams :: "ty set"
  requirements :: "requirement list"
  interfaceType :: ty
  isInvalid :: bool
  diagnostics :: "declDiagnostic list"

definition diagnoseUnreferenced :: "genericParam \<Rightarrow> referencedState \<Rightarrow> referencedState" where
  "diagnoseUnreferenced genParam s =
     s\<lparr>diagnostics := diagnostics s @ [unreferenced_generic_parameter genParam],
       interfaceType := ErrorType,
       isInvalid := True\<rparr>"

text \<open>The loop over the generic parameters of the signature.\<close>

fun checkEachGenericParam ::
  "GenericSignature \<Rightarrow> 32 word \<Rightarrow> genericParam list \<Rightarrow> referencedState \<Rightarrow> referencedState"
where
  "checkEachGenericParam genericSig fnGenericParamsDepth [] s = s"
| "checkEachGenericParam genericSig fnGenericParamsDepth (genParam # rest) s =
     (if getDepth genParam \<noteq> fnGenericParamsDepth
      then checkEachGenericParam genericSig fnGenericParamsDepth rest s
      else if GenericTypeParamType genParam \<notin> referencedGenericParams s
      then
        (if requirements s = []
         then
           (let s1 = s\<lparr>requirements := getRequirements genericSig,
                        referencedGenericParams :=
                          findReferencedGenericParamsInRequirements (getRequirements genericSig)
                            (referencedGenericParams s)\<rparr>
            in if GenericTypeParamType genParam \<in> referencedGenericParams s1
               then checkEachGenericParam genericSig fnGenericParamsDepth rest s1
               else checkEachGenericParam genericSig fnGenericParamsDepth rest
                      (diagnoseUnreferenced genParam s1))
         else checkEachGenericParam genericSig fnGenericParamsDepth rest
                (diagnoseUnreferenced genParam s))
      else checkEachGenericParam genericSig fnGenericParamsDepth rest s)"

text \<open>
  \<^verbatim>\<open>checkReferencedGenericParams\<close>. The result is the state after the loop; an accessor
  or a context without generic parameters leaves the declaration as it is. The
  interface type is cast to a function type, and the depth is read from the front of
  the generic parameter list.
\<close>

definition checkReferencedGenericParams :: "GenericContext \<Rightarrow> fault + referencedState" where
  "checkReferencedGenericParams dc =
     (let unchanged = \<lparr>referencedGenericParams = {}, requirements = [],
                       interfaceType = getInterfaceType dc, isInvalid = False,
                       diagnostics = []\<rparr>
      in if isAccessorDecl dc then Inr unchanged
         else case getGenericParamList dc of
           None \<Rightarrow> Inr unchanged
         | Some gpList \<Rightarrow>
             (case getInterfaceType dc of
                FunctionType params result \<Rightarrow>
                  (case gpList of
                     [] \<Rightarrow> Inl EmptyArray
                   | front # others \<Rightarrow>
                       Inr (checkEachGenericParam (getGenericSignatureOfContext dc)
                              (getDepth front)
                              (getGenericParams (getGenericSignatureOfContext dc))
                              (unchanged\<lparr>referencedGenericParams :=
                                 (\<Union>p \<in> set params. walk p) \<union> walk result\<rparr>)))
              | _ \<Rightarrow> Inl BadCast))"

subsection \<open>The closure, stated without the walker\<close>

text \<open>
  The type parameters that occur in a type, each taken whole: a generic parameter, or a
  dependent member type of one (\<^verbatim>\<open>T.M\<close>, \<^verbatim>\<open>T.M.N\<close>); what is inside a dependent member
  type is not looked at.
\<close>

fun outermostTypeParameters :: "ty \<Rightarrow> ty set" where
  "outermostTypeParameters (GenericTypeParamType p) = {GenericTypeParamType p}"
| "outermostTypeParameters (DependentMemberType b n) =
     (if isTypeParameter b then {DependentMemberType b n} else outermostTypeParameters b)"
| "outermostTypeParameters (NominalType n args) = (\<Union>a \<in> set args. outermostTypeParameters a)"
| "outermostTypeParameters (FunctionType ps r) =
     (\<Union>a \<in> set ps. outermostTypeParameters a) \<union> outermostTypeParameters r"
| "outermostTypeParameters (ProtocolType n) = {}"
| "outermostTypeParameters (ArchetypeType n) = {}"
| "outermostTypeParameters (OpaqueTypeArchetypeType sig p) = {}"
| "outermostTypeParameters ErrorType = {}"

text \<open>The types of a requirement: its subject, and the other type of a superclass or
  same-type requirement.\<close>

fun typesOfRequirement :: "requirement \<Rightarrow> ty list" where
  "typesOfRequirement (ConformanceReq t p) = [t]"
| "typesOfRequirement (SuperclassReq t s) = [t, s]"
| "typesOfRequirement (SameTypeReq t s) = [t, s]"
| "typesOfRequirement (LayoutReq t l) = [t]"

text \<open>
  The closure as the sources compute it: a type parameter is reached when it occurs
  whole in the formal signature (\<^verbatim>\<open>direct\<close>); a generic parameter is reached when it is
  itself a type parameter of a requirement, and some type parameter of that requirement
  has a root that is reached. The base of a dependent member type is marked by
  neither rule.
\<close>

inductive_set reached :: "ty set \<Rightarrow> requirement list \<Rightarrow> ty set"
  for direct :: "ty set" and reqs :: "requirement list" where
  Direct: "t \<in> direct \<Longrightarrow> t \<in> reached direct reqs"
| ByRequirement:
    "req \<in> set reqs \<Longrightarrow> a \<in> set (typesOfRequirement req) \<Longrightarrow>
     u \<in> outermostTypeParameters a \<Longrightarrow> getRootGenericParam u \<in> reached direct reqs \<Longrightarrow>
     b \<in> set (typesOfRequirement req) \<Longrightarrow>
     GenericTypeParamType p \<in> outermostTypeParameters b \<Longrightarrow>
     GenericTypeParamType p \<in> reached direct reqs"

subsection \<open>The closure in the words of the spec\<close>

text \<open>The generic parameters that a type mentions, anywhere in it, also as the base of
  a dependent member type.\<close>

fun genericParamsIn :: "ty \<Rightarrow> ty set" where
  "genericParamsIn (GenericTypeParamType p) = {GenericTypeParamType p}"
| "genericParamsIn (DependentMemberType b n) = genericParamsIn b"
| "genericParamsIn (NominalType n args) = (\<Union>a \<in> set args. genericParamsIn a)"
| "genericParamsIn (FunctionType ps r) = (\<Union>a \<in> set ps. genericParamsIn a) \<union> genericParamsIn r"
| "genericParamsIn (ProtocolType n) = {}"
| "genericParamsIn (ArchetypeType n) = {}"
| "genericParamsIn (OpaqueTypeArchetypeType sig p) = {}"
| "genericParamsIn ErrorType = {}"

text \<open>
  The spec's reading of the closure (4.6): a parameter is referenced when the formal
  signature mentions it (\<^verbatim>\<open>direct\<close>), and the parameters of a requirement become
  referenced when the requirement also mentions a parameter that is referenced already.
\<close>

inductive_set referencedBySpec :: "ty set \<Rightarrow> requirement list \<Rightarrow> ty set"
  for direct :: "ty set" and reqs :: "requirement list" where
  Mentioned: "t \<in> direct \<Longrightarrow> t \<in> referencedBySpec direct reqs"
| ByMention:
    "req \<in> set reqs \<Longrightarrow> a \<in> set (typesOfRequirement req) \<Longrightarrow> q \<in> genericParamsIn a \<Longrightarrow>
     q \<in> referencedBySpec direct reqs \<Longrightarrow>
     b \<in> set (typesOfRequirement req) \<Longrightarrow> p \<in> genericParamsIn b \<Longrightarrow>
     p \<in> referencedBySpec direct reqs"

section \<open>Generic environments and opaque result types\<close>

text \<open>
  Generic signatures are handed around by pointer. A pointer is an address; the store
  \<^verbatim>\<open>signatureAt\<close> gives the signature at an address, and two pointers are the same
  instance when the addresses are equal.
\<close>

type_synonym sigRef = nat

text \<open>
  The signature builder (\<^verbatim>\<open>GenericSignatureBuilder\<close>) is not among the sources. The
  functions here only call it, so a builder is the list of the calls made on it, in
  order, and what \<^verbatim>\<open>computeGenericSignature\<close> makes of them is a parameter.
  \<^verbatim>\<open>InferRequirements\<close> stands for a call of \<^verbatim>\<open>inferRequirements\<close>, named by what the
  requirements are inferred from.
\<close>

datatype builderCall =
    AddGenericSignature "sigRef option"
  | AddGenericParameter genericParam
  | AddGenericParameterRequirements genericParam
  | AddRequirement requirement
  | InferRequirements string

type_synonym GenericSignatureBuilder = "builderCall list"

record NominalTypeDecl =
  nominalGenericSignatureOfContext :: "sigRef option"

text \<open>An extension declaration: the nominal type it extends (if any), its trailing
  where-clause (if any), the extended type with whether it is existential, and the
  interface type of \<^verbatim>\<open>Self\<close>.\<close>

record ExtensionDecl =
  getSelfNominalTypeDecl :: "NominalTypeDecl option"
  getTrailingWhereClause :: "requirement list option"
  getExtendedType :: ty
  extendedTypeIsExistential :: bool
  getSelfInterfaceType :: ty

text \<open>
  A generic parameter list: its parameters, the requirements of its where-clause as
  \<^verbatim>\<open>RequirementRequest\<close> resolves them, the extension that is its declaration context (if
  that is an extension), the start of its source range, and the outer list.
\<close>

datatype GenericParamList =
  GenericParamList (getParams: "genericParam list") (getWhereRequirements: "requirement list")
    (getExtensionContext: "ExtensionDecl option") (getSourceStart: SourceLoc)
    (getOuterParameters: "GenericParamList option")

datatype paramListDiagnostic = protocol_extension_redundant_requirement ty ty ty

text \<open>The part of the type checker the functions below use: the store of signatures
  and the builder's \<^verbatim>\<open>computeGenericSignature(loc, allowConcreteGenericParams)\<close>.\<close>

record TypeChecker =
  signatureAt :: "sigRef \<Rightarrow> GenericSignature option"
  computeGenericSignature :: "GenericSignatureBuilder \<Rightarrow> SourceLoc \<Rightarrow> bool \<Rightarrow> sigRef"

text \<open>A generic environment is formed from a signature and keeps the pointer to it.\<close>

datatype GenericEnvironment = GenericEnvironment (getGenericSignature: sigRef)

text \<open>
  The callback of \<^verbatim>\<open>visitRequirements\<close> in \<^verbatim>\<open>checkGenericParamList\<close>: for an extension of
  an existential type, a requirement whose sides are \<^verbatim>\<open>Self\<close> and the extended type is
  diagnosed as redundant; every requirement is added to the builder. (A layout
  requirement has no second type; the test is taken to fail for it.)
\<close>

definition visitWhereRequirement ::
  "ExtensionDecl option \<Rightarrow> requirement \<Rightarrow>
   GenericSignatureBuilder \<times> paramListDiagnostic list \<Rightarrow>
   GenericSignatureBuilder \<times> paramListDiagnostic list" where
  "visitWhereRequirement dcExt req acc =
     (let diags =
            (case dcExt of
               None \<Rightarrow> []
             | Some extDecl \<Rightarrow>
                 if extendedTypeIsExistential extDecl \<and>
                    getFirstType req = getSelfInterfaceType extDecl \<and>
                    getSecondType req = Some (getExtendedType extDecl)
                 then [protocol_extension_redundant_requirement (getExtendedType extDecl)
                         (getSelfInterfaceType extDecl) (getExtendedType extDecl)]
                 else [])
      in (fst acc @ [AddRequirement req], snd acc @ diags))"

text \<open>
  \<^verbatim>\<open>checkGenericParamList\<close>: the parent signature is added first, then every generic
  parameter, then the requirements of every parameter, then the where-clause. An empty
  parameter list is the assertion's failure.
\<close>

definition checkGenericParamList ::
  "GenericSignatureBuilder \<times> paramListDiagnostic list \<Rightarrow> GenericParamList \<Rightarrow> sigRef option \<Rightarrow>
   fault + GenericSignatureBuilder \<times> paramListDiagnostic list" where
  "checkGenericParamList acc gpList parentSig =
     (let builder1 = fst acc @ [AddGenericSignature parentSig]
      in if getParams gpList = [] then Inl EmptyArray
         else
           (let builder2 = builder1 @ map AddGenericParameter (getParams gpList);
                builder3 = builder2 @ map AddGenericParameterRequirements (getParams gpList)
            in Inr (foldl (\<lambda>b req. visitWhereRequirement (getExtensionContext gpList) req b)
                      (builder3, snd acc) (getWhereRequirements gpList))))"

text \<open>\<^verbatim>\<open>visitOuterToInner\<close> with the visitor of \<^verbatim>\<open>checkGenericEnvironment\<close>, which checks
  each list with a null parent signature.\<close>

fun visitOuterToInner ::
  "GenericParamList \<Rightarrow> GenericSignatureBuilder \<times> paramListDiagnostic list \<Rightarrow>
   fault + GenericSignatureBuilder \<times> paramListDiagnostic list" where
  "visitOuterToInner (GenericParamList ps ws dcExt start outer) acc =
     (case (case outer of
              None \<Rightarrow> Inr acc
            | Some outerGenericParams \<Rightarrow> visitOuterToInner outerGenericParams acc) of
        Inl f \<Rightarrow> Inl f
      | Inr acc' \<Rightarrow> checkGenericParamList acc' (GenericParamList ps ws dcExt start outer) None)"

text \<open>\<^verbatim>\<open>sig->getGenericParams().back()->getDepth()\<close> for a signature pointer.\<close>

definition backDepth :: "TypeChecker \<Rightarrow> sigRef \<Rightarrow> fault + 32 word" where
  "backDepth tc sig =
     (case signatureAt tc sig of
        None \<Rightarrow> Inl NullDereference
      | Some s \<Rightarrow>
          (case getGenericParams s of
             [] \<Rightarrow> Inl EmptyArray
           | p # ps \<Rightarrow> Inr (getDepth (last (p # ps)))))"

text \<open>\<^verbatim>\<open>getExtendedTypeGenericDepth\<close>: \<^verbatim>\<open>static_cast<unsigned>(-1)\<close> when there is no
  nominal type or it has no generic signature.\<close>

definition getExtendedTypeGenericDepth :: "TypeChecker \<Rightarrow> ExtensionDecl \<Rightarrow> fault + 32 word" where
  "getExtendedTypeGenericDepth tc ext =
     (case getSelfNominalTypeDecl ext of
        None \<Rightarrow> Inr (- 1)
      | Some nominal \<Rightarrow>
          (case nominalGenericSignatureOfContext nominal of
             None \<Rightarrow> Inr (- 1)
           | Some sig \<Rightarrow> backDepth tc sig))"

text \<open>
  The result of \<^verbatim>\<open>checkGenericEnvironment\<close>: the environment, the builder that was run
  (\<^verbatim>\<open>None\<close> when none was created) and the diagnostics.
\<close>

record environmentResult =
  environment :: GenericEnvironment
  builderRun :: "GenericSignatureBuilder option"
  paramListDiagnostics :: "paramListDiagnostic list"

text \<open>The branch of \<^verbatim>\<open>checkGenericEnvironment\<close> that creates a builder.\<close>

definition buildGenericEnvironment ::
  "TypeChecker \<Rightarrow> GenericParamList \<Rightarrow> sigRef option \<Rightarrow> bool \<Rightarrow>
   (GenericSignatureBuilder \<Rightarrow> GenericSignatureBuilder) \<Rightarrow> fault + environmentResult" where
  "buildGenericEnvironment tc gpList parentSig allowConcreteGenericParams inferRequirements =
     (case (if getOuterParameters gpList \<noteq> None \<and> parentSig = None
            then visitOuterToInner gpList ([], [])
            else checkGenericParamList ([], []) gpList parentSig) of
        Inl f \<Rightarrow> Inl f
      | Inr (builder, diags) \<Rightarrow>
          (let builder' = inferRequirements builder;
               sig = computeGenericSignature tc builder' (getSourceStart gpList)
                       allowConcreteGenericParams
           in Inr \<lparr>environment = GenericEnvironment sig, builderRun = Some builder',
                   paramListDiagnostics = diags\<rparr>))"

text \<open>The branch that re-uses the signature of the type being extended.\<close>

definition reuseGenericEnvironment :: "ExtensionDecl \<Rightarrow> fault + environmentResult" where
  "reuseGenericEnvironment ext =
     (case getSelfNominalTypeDecl ext of
        None \<Rightarrow> Inl NullDereference
      | Some nominal \<Rightarrow>
          (case nominalGenericSignatureOfContext nominal of
             None \<Rightarrow> Inl NullDereference
           | Some sig \<Rightarrow>
               Inr \<lparr>environment = GenericEnvironment sig, builderRun = None,
                     paramListDiagnostics = []\<rparr>))"

text \<open>
  \<^verbatim>\<open>checkGenericEnvironment\<close>. The condition is evaluated left to right: the depths are
  compared only for an extension without a trailing where-clause that need not infer
  requirements.
\<close>

definition checkGenericEnvironment ::
  "TypeChecker \<Rightarrow> GenericParamList \<Rightarrow> sigRef option \<Rightarrow> bool \<Rightarrow> ExtensionDecl option \<Rightarrow>
   (GenericSignatureBuilder \<Rightarrow> GenericSignatureBuilder) \<Rightarrow> bool \<Rightarrow> fault + environmentResult"
where
  "checkGenericEnvironment tc gpList parentSig allowConcreteGenericParams ext inferRequirements
     mustInferRequirements =
     (case ext of
        None \<Rightarrow>
          buildGenericEnvironment tc gpList parentSig allowConcreteGenericParams inferRequirements
      | Some e \<Rightarrow>
          if mustInferRequirements \<or> getTrailingWhereClause e \<noteq> None
          then buildGenericEnvironment tc gpList parentSig allowConcreteGenericParams
                 inferRequirements
          else
            (case getExtendedTypeGenericDepth tc e of
               Inl f \<Rightarrow> Inl f
             | Inr extendedDepth \<Rightarrow>
                 (case getParams gpList of
                    [] \<Rightarrow> Inl EmptyArray
                  | p # ps \<Rightarrow>
                      if extendedDepth \<noteq> getDepth (last (p # ps))
                      then buildGenericEnvironment tc gpList parentSig
                             allowConcreteGenericParams inferRequirements
                      else reuseGenericEnvironment e)))"

text \<open>
  What the builder is to receive, stated without the functions above. For one
  generic parameter list: the parent signature, the parameters of the list, the
  requirements of each parameter, and the requirements of the where-clause.
\<close>

definition callsForList :: "sigRef option \<Rightarrow> GenericParamList \<Rightarrow> builderCall list" where
  "callsForList parentSig gpList =
     AddGenericSignature parentSig # map AddGenericParameter (getParams gpList) @
     map AddGenericParameterRequirements (getParams gpList) @
     map AddRequirement (getWhereRequirements gpList)"

text \<open>A generic parameter list with its outer lists, the outermost first.\<close>

fun outerToInner :: "GenericParamList \<Rightarrow> GenericParamList list" where
  "outerToInner (GenericParamList ps ws dcExt start outer) =
     (case outer of None \<Rightarrow> [] | Some outerGenericParams \<Rightarrow> outerToInner outerGenericParams) @
     [GenericParamList ps ws dcExt start outer]"

text \<open>
  The lists that seed the builder: the list alone, with the parent signature; or, when
  the list has outer lists and there is no parent signature, every list from the
  outermost to the innermost, which brings in the parameters of the enclosing types.
\<close>

definition listsChecked :: "GenericParamList \<Rightarrow> sigRef option \<Rightarrow> GenericParamList list" where
  "listsChecked gpList parentSig =
     (if getOuterParameters gpList \<noteq> None \<and> parentSig = None then outerToInner gpList
      else [gpList])"

definition seededBuilder :: "GenericParamList \<Rightarrow> sigRef option \<Rightarrow> builderCall list" where
  "seededBuilder gpList parentSig =
     concat (map (callsForList parentSig) (listsChecked gpList parentSig))"

subsection \<open>getOrCreateOpaqueResultType\<close>

text \<open>The layout of an existential type: its superclass, its protocols and its layout
  constraint.\<close>

record ExistentialLayout =
  getSuperclass :: "ty option"
  getProtocols :: "string list"
  getLayoutConstraint :: "layoutConstraint option"

text \<open>
  What the function reads of its arguments and of the type checker: whether the
  declaration is a protocol requirement in a protocol, its opaque result type
  declaration if it has one, the outcome of the availability check, the outcome of
  \<^verbatim>\<open>validateType\<close> on the constraint, the queries on the constraint type, and the generic
  signature of the innermost context.
\<close>

text \<open>The synthetic declaration of an opaque type: its generic signature and the
  generic parameter that stands for the opaque type. Its declared interface type is the
  opaque archetype of the declaration.\<close>

record OpaqueTypeDecl =
  getOpaqueInterfaceGenericSignature :: sigRef
  getUnderlyingInterfaceType :: genericParam

definition getDeclaredInterfaceType :: "OpaqueTypeDecl \<Rightarrow> ty" where
  "getDeclaredInterfaceType d =
     OpaqueTypeArchetypeType (getOpaqueInterfaceGenericSignature d) (getUnderlyingInterfaceType d)"

record opaqueArgs =
  isProtocolRequirementInProtocol :: bool
  getOpaqueResultTypeDecl :: "OpaqueTypeDecl option"
  availabilityCheckFails :: bool
  validationError :: bool
  constraintType :: ty
  constraintIsClass :: bool
  constraintIsExistential :: bool
  getExistentialLayout :: ExistentialLayout
  outerGenericSignature :: "sigRef option"

datatype opaqueDiagnostic =
    opaque_type_in_protocol_requirement
  | opaque_type_unavailable
  | opaque_type_invalid_constraint

text \<open>The result: the type returned, the diagnostics, the builder that was run and the
  opaque type declaration recorded on the originating declaration (if any).\<close>

record opaqueResult =
  resultType :: ty
  opaqueDiagnostics :: "opaqueDiagnostic list"
  opaqueBuilder :: "GenericSignatureBuilder option"
  setOpaqueResultTypeDecl :: "OpaqueTypeDecl option"

text \<open>The requirements added for the constraint: one superclass requirement for a class
  bound; for an existential bound the superclass, every protocol and the layout
  constraint of its layout.\<close>

definition opaqueRequirements :: "opaqueArgs \<Rightarrow> genericParam \<Rightarrow> requirement list" where
  "opaqueRequirements a returnTypeParam =
     (if constraintIsClass a
      then [SuperclassReq (GenericTypeParamType returnTypeParam) (constraintType a)]
      else
        (let constraints = getExistentialLayout a
         in (case getSuperclass constraints of
               None \<Rightarrow> []
             | Some superclass \<Rightarrow>
                 [SuperclassReq (GenericTypeParamType returnTypeParam) superclass]) @
            map (\<lambda>protocol. ConformanceReq (GenericTypeParamType returnTypeParam) protocol)
              (getProtocols constraints) @
            (case getLayoutConstraint constraints of
               None \<Rightarrow> []
             | Some layout \<Rightarrow> [LayoutReq (GenericTypeParamType returnTypeParam) layout])))"

definition getOrCreateOpaqueResultType :: "TypeChecker \<Rightarrow> opaqueArgs \<Rightarrow> fault + opaqueResult"
where
  "getOrCreateOpaqueResultType tc a =
     (if isProtocolRequirementInProtocol a
      then Inr \<lparr>resultType = ErrorType,
                opaqueDiagnostics = [opaque_type_in_protocol_requirement],
                opaqueBuilder = None, setOpaqueResultTypeDecl = None\<rparr>
      else case getOpaqueResultTypeDecl a of
        Some existingDecl \<Rightarrow>
          Inr \<lparr>resultType = getDeclaredInterfaceType existingDecl,
                opaqueDiagnostics = [], opaqueBuilder = None, setOpaqueResultTypeDecl = None\<rparr>
      | None \<Rightarrow>
          (let diags = (if availabilityCheckFails a then [opaque_type_unavailable] else [])
           in if validationError a
              then Inr \<lparr>resultType = (constraintType a), opaqueDiagnostics = diags,
                        opaqueBuilder = None, setOpaqueResultTypeDecl = None\<rparr>
              else if \<not> constraintIsClass a \<and> \<not> constraintIsExistential a
              then Inr \<lparr>resultType = (constraintType a),
                        opaqueDiagnostics = diags @ [opaque_type_invalid_constraint],
                        opaqueBuilder = None, setOpaqueResultTypeDecl = None\<rparr>
              else
                (case (case outerGenericSignature a of
                         None \<Rightarrow> Inr ([], 0)
                       | Some outer \<Rightarrow>
                           (case backDepth tc outer of
                              Inl f \<Rightarrow> Inl f
                            | Inr d \<Rightarrow> Inr ([AddGenericSignature (Some outer)], d + 1))) of
                   Inl f \<Rightarrow> Inl f
                 | Inr (builder0, returnTypeDepth) \<Rightarrow>
                     (let returnTypeParam = GenericParam returnTypeDepth 0;
                          builder = builder0 @ [AddGenericParameter returnTypeParam] @
                                    map AddRequirement (opaqueRequirements a returnTypeParam);
                          interfaceSignature = computeGenericSignature tc builder None False;
                          opaqueDecl =
                            \<lparr>getOpaqueInterfaceGenericSignature = interfaceSignature,
                             getUnderlyingInterfaceType = returnTypeParam\<rparr>
                      in Inr \<lparr>resultType = getDeclaredInterfaceType opaqueDecl,
                               opaqueDiagnostics = diags,
                               opaqueBuilder = Some builder,
                               setOpaqueResultTypeDecl = Some opaqueDecl\<rparr>))))"

section \<open>Example inputs\<close>

text \<open>
  A small world for the requirement checker: \<^verbatim>\<open>Int\<close> conforms to \<^verbatim>\<open>Equatable\<close>,
  \<^verbatim>\<open>Array<X>\<close> conforms to \<^verbatim>\<open>Equatable\<close> on the condition that \<^verbatim>\<open>X\<close> does, and
  \<^verbatim>\<open>Array<X>\<close> conforms to \<^verbatim>\<open>Codable\<close> on the conditions that \<^verbatim>\<open>X\<close> is \<^verbatim>\<open>Opaque\<close> and
  that \<^verbatim>\<open>X\<close> is \<^verbatim>\<open>Int\<close>; nothing else conforms. The single generic parameter \<^verbatim>\<open>T\<close> is
  replaced by the given type.
\<close>

definition paramT :: genericParam where
  "paramT = GenericParam 0 0"

definition tyT :: ty where
  "tyT = GenericTypeParamType paramT"

definition tyInt :: ty where
  "tyInt = NominalType ''Int'' []"

definition tyOpaque :: ty where
  "tyOpaque = NominalType ''Opaque'' []"

definition tyArray :: "ty \<Rightarrow> ty" where
  "tyArray x = NominalType ''Array'' [x]"

definition exampleConformances :: "ty \<Rightarrow> string \<Rightarrow> conformance option" where
  "exampleConformances t p =
     (case t of
        NominalType n args \<Rightarrow>
          (if n = ''Int'' \<and> args = [] \<and> p = ''Equatable''
           then Some (ProtocolConformanceRef ''Int: Equatable'' [])
           else if n = ''Array'' \<and> length args = 1 \<and> p = ''Equatable''
           then Some (ProtocolConformanceRef ''Array: Equatable''
                        [ConformanceReq (hd args) ''Equatable''])
           else if n = ''Array'' \<and> length args = 1 \<and> p = ''Codable''
           then Some (ProtocolConformanceRef ''Array: Codable''
                        [SameTypeReq (hd args) tyOpaque, SameTypeReq (hd args) tyInt])
           else None)
      | _ \<Rightarrow> None)"

definition exampleArgs :: "listener option \<Rightarrow> SourceLoc \<Rightarrow> ty \<Rightarrow> checkArgs" where
  "exampleArgs l location x =
     \<lparr>loc = location,
      noteLoc = location,
      owner = NominalType ''Owner'' [tyT],
      genericParams = [paramT],
      substitutions = (\<lambda>p. if p = paramT then Some x else None),
      substType = (\<lambda>t. if t = tyT then Some x else if hasTypeParameter t then None else Some t),
      mapTypeIntoContext = (\<lambda>t. t),
      conformsToProtocol = exampleConformances,
      satisfiesClassConstraint = (\<lambda>t. False),
      isExactSuperclassOf = (\<lambda>s t. False),
      listenerOf = l,
      getName = (\<lambda>p. ''T''),
      getString = (\<lambda>t. case t of NominalType n args \<Rightarrow> n | _ \<Rightarrow> ''_'')\<rparr>"

text \<open>A listener that lets nothing be checked, and one that takes every diagnosis over.\<close>

definition vetoAll :: listener where
  "vetoAll = \<lparr>shouldCheck = (\<lambda>k t s. False),
              diagnoseUnsatisfiedRequirement = (\<lambda>r t s ps. False)\<rparr>"

definition diagnoseAll :: listener where
  "diagnoseAll = \<lparr>shouldCheck = (\<lambda>k t s. True),
                  diagnoseUnsatisfiedRequirement = (\<lambda>r t s ps. True)\<rparr>"

text \<open>
  A generic function \<^verbatim>\<open><T1, T2, T3, U>(U) -> Void\<close> with the requirements
  \<^verbatim>\<open>T1 == T2.M\<close>, \<^verbatim>\<open>T2 == T3.N\<close>, \<^verbatim>\<open>T3 == U\<close>: only \<^verbatim>\<open>U\<close> is referenced directly. The
  second example, \<^verbatim>\<open><T1, T2>(T1) -> Void\<close> without requirements, never mentions \<^verbatim>\<open>T2\<close>.
\<close>

definition tyVoid :: ty where
  "tyVoid = NominalType ''Void'' []"

definition chainSignature :: GenericSignature where
  "chainSignature =
     \<lparr>getGenericParams = [GenericParam 0 0, GenericParam 0 1, GenericParam 0 2, GenericParam 0 3],
      getRequirements =
        [SameTypeReq (GenericTypeParamType (GenericParam 0 0))
           (DependentMemberType (GenericTypeParamType (GenericParam 0 1)) ''M''),
         SameTypeReq (GenericTypeParamType (GenericParam 0 1))
           (DependentMemberType (GenericTypeParamType (GenericParam 0 2)) ''N''),
         SameTypeReq (GenericTypeParamType (GenericParam 0 2))
           (GenericTypeParamType (GenericParam 0 3))]\<rparr>"

definition chainContext :: GenericContext where
  "chainContext =
     \<lparr>isAccessorDecl = False,
      getGenericParamList =
        Some [GenericParam 0 0, GenericParam 0 1, GenericParam 0 2, GenericParam 0 3],
      getGenericSignatureOfContext = chainSignature,
      getInterfaceType = FunctionType [GenericTypeParamType (GenericParam 0 3)] tyVoid\<rparr>"

definition unusedContext :: GenericContext where
  "unusedContext =
     \<lparr>isAccessorDecl = False,
      getGenericParamList = Some [GenericParam 0 0, GenericParam 0 1],
      getGenericSignatureOfContext =
        \<lparr>getGenericParams = [GenericParam 0 0, GenericParam 0 1], getRequirements = []\<rparr>,
      getInterfaceType = FunctionType [GenericTypeParamType (GenericParam 0 0)] tyVoid\<rparr>"

text \<open>
  Two declarations that mention \<^verbatim>\<open>T\<close> only as the base of \<^verbatim>\<open>T.M\<close>:
  \<^verbatim>\<open><T, U>(U) -> Void where T: P, T.M == U\<close>, and \<^verbatim>\<open><T>(T.M) -> Void where T: P\<close>.
\<close>

definition memberRequirementContext :: GenericContext where
  "memberRequirementContext =
     \<lparr>isAccessorDecl = False,
      getGenericParamList = Some [GenericParam 0 0, GenericParam 0 1],
      getGenericSignatureOfContext =
        \<lparr>getGenericParams = [GenericParam 0 0, GenericParam 0 1],
         getRequirements =
           [ConformanceReq (GenericTypeParamType (GenericParam 0 0)) ''P'',
            SameTypeReq (DependentMemberType (GenericTypeParamType (GenericParam 0 0)) ''M'')
              (GenericTypeParamType (GenericParam 0 1))]\<rparr>,
      getInterfaceType = FunctionType [GenericTypeParamType (GenericParam 0 1)] tyVoid\<rparr>"

definition memberFormalContext :: GenericContext where
  "memberFormalContext =
     \<lparr>isAccessorDecl = False,
      getGenericParamList = Some [GenericParam 0 0],
      getGenericSignatureOfContext =
        \<lparr>getGenericParams = [GenericParam 0 0],
         getRequirements = [ConformanceReq (GenericTypeParamType (GenericParam 0 0)) ''P'']\<rparr>,
      getInterfaceType =
        FunctionType [DependentMemberType (GenericTypeParamType (GenericParam 0 0)) ''M''] tyVoid\<rparr>"


text \<open>
  A type checker whose store holds the signature of \<^verbatim>\<open>Array<T>\<close> at address 7 and whose
  builder puts a new signature at an address past 100; the nominal type \<^verbatim>\<open>Array\<close>, an
  extension of it without where-clause, and the generic parameter list of the extension.
\<close>

definition exampleTypeChecker :: TypeChecker where
  "exampleTypeChecker =
     \<lparr>signatureAt =
        (\<lambda>r. if r = 7
             then Some \<lparr>getGenericParams = [GenericParam 0 0], getRequirements = []\<rparr>
             else None),
      computeGenericSignature = (\<lambda>builder location allowConcrete. 100 + length builder)\<rparr>"

definition arrayExtension :: ExtensionDecl where
  "arrayExtension =
     \<lparr>getSelfNominalTypeDecl = Some \<lparr>nominalGenericSignatureOfContext = Some 7\<rparr>,
      getTrailingWhereClause = None,
      getExtendedType = NominalType ''Array'' [GenericTypeParamType (GenericParam 0 0)],
      extendedTypeIsExistential = False,
      getSelfInterfaceType = NominalType ''Array'' [GenericTypeParamType (GenericParam 0 0)]\<rparr>"

definition arrayExtensionParams :: GenericParamList where
  "arrayExtensionParams =
     GenericParamList [GenericParam 0 0] [] (Some arrayExtension) (Some 5) None"

text \<open>The generic parameter list of an extension of a generic type nested in
  \<^verbatim>\<open>Array<T>\<close>: the list of the nested type, with the list of \<^verbatim>\<open>Array\<close> as its outer list.\<close>

definition nestedExtensionParams :: GenericParamList where
  "nestedExtensionParams =
     GenericParamList [GenericParam 1 0]
       [ConformanceReq (GenericTypeParamType (GenericParam 1 0)) ''Equatable'']
       (Some arrayExtension) (Some 9) (Some arrayExtensionParams)"

text \<open>An opaque result type \<^verbatim>\<open>some (Base & Equatable & AnyObject)\<close> on a declaration inside
  the generic context of \<^verbatim>\<open>Array<T>\<close>.\<close>

definition exampleOpaqueArgs :: opaqueArgs where
  "exampleOpaqueArgs =
     \<lparr>isProtocolRequirementInProtocol = False,
      getOpaqueResultTypeDecl = None,
      availabilityCheckFails = False,
      validationError = False,
      constraintType = NominalType ''Base & Equatable & AnyObject'' [],
      constraintIsClass = False,
      constraintIsExistential = True,
      getExistentialLayout =
        \<lparr>getSuperclass = Some (NominalType ''Base'' []),
         getProtocols = [''Equatable''],
         getLayoutConstraint = Some ClassLayout\<rparr>,
      outerGenericSignature = Some 7\<rparr>"

section \<open>The signature builder, from the spec\<close>

text \<open>
  Modelled from the spec: the signature builder (\<^verbatim>\<open>GenericSignatureBuilder\<close> with
  \<^verbatim>\<open>addGenericSignature\<close>, \<^verbatim>\<open>addGenericParameter\<close>, \<^verbatim>\<open>addRequirement\<close> and
  \<^verbatim>\<open>computeGenericSignature\<close>) is not among the sources, which only call it. The spec
  (3, 4.2) describes it: equivalence classes of types under same-type constraints,
  each with one designated representative chosen deterministically by structure (a
  bare parameter before a dependent-member type before a concrete type);
  \<^verbatim>\<open>addRequirement\<close> unions two classes for a same-type requirement and attaches any
  other constraint to the class of its subject, diagnosing a requirement that
  contradicts what is established; \<^verbatim>\<open>computeGenericSignature\<close> canonicalizes the classes
  and drops redundant requirements.
\<close>

subsection \<open>The structural order of types\<close>

text \<open>
  Modelled from the spec: the order behind the choice of a representative. The code of
  a type lists its structure, the kind first: 0 for a generic parameter, 1 for a
  dependent-member type, a larger number for every concrete type. Types are compared
  by their codes, lexicographically, so that a parameter comes before a
  dependent-member type, which comes before a concrete type.
\<close>

definition stringCode :: "string \<Rightarrow> nat list" where
  "stringCode s = length s # map of_char s"

text \<open>Modelled from the spec: the code of a generic parameter, its depth and index.\<close>

fun paramCode :: "genericParam \<Rightarrow> nat list" where
  "paramCode (GenericParam d i) = [unat d, unat i]"

text \<open>Modelled from the spec: the code of a type, the kind first.\<close>

fun typeCode :: "ty \<Rightarrow> nat list" where
  "typeCode (GenericTypeParamType p) = 0 # paramCode p"
| "typeCode (DependentMemberType b n) = 1 # typeCode b @ stringCode n"
| "typeCode (NominalType n args) = 2 # stringCode n @ length args # concat (map typeCode args)"
| "typeCode (ProtocolType n) = 3 # stringCode n"
| "typeCode (ArchetypeType n) = 4 # stringCode n"
| "typeCode (FunctionType ps r) = 5 # length ps # concat (map typeCode ps) @ typeCode r"
| "typeCode (OpaqueTypeArchetypeType sig p) = 6 # sig # paramCode p"
| "typeCode ErrorType = [7]"

text \<open>The code of a type is a prefix code: it determines the type, whatever follows.\<close>

lemma stringCode_prefix:
  "stringCode s @ xs = stringCode s' @ ys \<Longrightarrow> s = s' \<and> xs = ys"
proof -
  assume h: "stringCode s @ xs = stringCode s' @ ys"
  then have len: "length s = length s'" by (simp add: stringCode_def)
  from h have "map (of_char :: char \<Rightarrow> nat) s @ xs = map of_char s' @ ys"
    by (simp add: stringCode_def)
  with len have "map (of_char :: char \<Rightarrow> nat) s = map of_char s' \<and> xs = ys" by simp
  moreover have "inj (of_char :: char \<Rightarrow> nat)" by (rule injI) simp
  ultimately show ?thesis by simp
qed

lemma paramCode_prefix:
  "paramCode p @ xs = paramCode q @ ys \<Longrightarrow> p = q \<and> xs = ys"
  by (cases p; cases q) (simp add: word_unat_eq_iff)

lemma typesCode_prefix:
  assumes "\<And>t u xs ys. t \<in> set ts \<Longrightarrow> typeCode t @ xs = typeCode u @ ys \<Longrightarrow> t = u \<and> xs = ys"
    and "length ts = length us"
    and "concat (map typeCode ts) @ xs = concat (map typeCode us) @ ys"
  shows "ts = us \<and> xs = ys"
  using assms
proof (induction ts arbitrary: us)
  case Nil
  then show ?case by simp
next
  case (Cons t ts)
  from Cons.prems(2) obtain u us' where us: "us = u # us'" by (cases us) auto
  from Cons.prems(3) us have
    "typeCode t @ (concat (map typeCode ts) @ xs) = typeCode u @ (concat (map typeCode us') @ ys)"
    by simp
  with Cons.prems(1) [of t] have tu: "t = u"
    and r: "concat (map typeCode ts) @ xs = concat (map typeCode us') @ ys"
    by auto
  have "ts = us' \<and> xs = ys"
  proof (rule Cons.IH)
    show "length ts = length us'" using Cons.prems(2) us by simp
    show "concat (map typeCode ts) @ xs = concat (map typeCode us') @ ys" by (rule r)
    show "\<And>t u xs ys. t \<in> set ts \<Longrightarrow> typeCode t @ xs = typeCode u @ ys \<Longrightarrow> t = u \<and> xs = ys"
      using Cons.prems(1) by auto
  qed
  with tu us show ?case by simp
qed

lemma typeCode_prefix:
  "typeCode a @ xs = typeCode b @ ys \<Longrightarrow> a = b \<and> xs = ys"
proof (induction a arbitrary: b xs ys)
  case (GenericTypeParamType p)
  then show ?case by (cases b) (auto dest: paramCode_prefix)
next
  case (DependentMemberType a n)
  show ?case
  proof (cases b)
    case (DependentMemberType a' n')
    with DependentMemberType.prems have
      "typeCode a @ (stringCode n @ xs) = typeCode a' @ (stringCode n' @ ys)" by simp
    from DependentMemberType.IH [OF this] have "a = a'" "stringCode n @ xs = stringCode n' @ ys"
      by auto
    with stringCode_prefix [of n xs n' ys] DependentMemberType show ?thesis by simp
  qed (use DependentMemberType.prems in auto)
next
  case (NominalType n args)
  show ?case
  proof (cases b)
    case (NominalType n' args')
    with NominalType.prems have
      "stringCode n @ (length args # concat (map typeCode args) @ xs) =
       stringCode n' @ (length args' # concat (map typeCode args') @ ys)" by simp
    from stringCode_prefix [OF this] have n: "n = n'" and len: "length args = length args'"
      and r: "concat (map typeCode args) @ xs = concat (map typeCode args') @ ys"
      by auto
    have "args = args' \<and> xs = ys"
      by (rule typesCode_prefix [OF _ len r]) (rule NominalType.IH)
    with n NominalType show ?thesis by simp
  qed (use NominalType.prems in auto)
next
  case (ProtocolType n)
  then show ?case by (cases b) (auto dest: stringCode_prefix)
next
  case (ArchetypeType n)
  then show ?case by (cases b) (auto dest: stringCode_prefix)
next
  case (FunctionType ps r)
  show ?case
  proof (cases b)
    case (FunctionType ps' r')
    with FunctionType.prems have len: "length ps = length ps'"
      and e: "concat (map typeCode ps) @ (typeCode r @ xs) =
              concat (map typeCode ps') @ (typeCode r' @ ys)"
      by auto
    have "ps = ps' \<and> typeCode r @ xs = typeCode r' @ ys"
      by (rule typesCode_prefix [OF _ len e]) (rule FunctionType.IH(1))
    with FunctionType.IH(2) [of xs r' ys] FunctionType show ?thesis by simp
  qed (use FunctionType.prems in auto)
next
  case (OpaqueTypeArchetypeType sig p)
  then show ?case by (cases b) (auto dest: paramCode_prefix)
next
  case ErrorType
  then show ?case by (cases b) auto
qed

lemma typeCode_inj: "typeCode a = typeCode b \<longleftrightarrow> a = b"
  using typeCode_prefix [of a "[]" b "[]"] by auto

text \<open>The order of types is the order of their codes; it is linear because the code is
  injective.\<close>

instantiation ty :: linorder
begin

definition less_eq_ty :: "ty \<Rightarrow> ty \<Rightarrow> bool" where
  "less_eq_ty a b \<longleftrightarrow> typeCode a \<le> typeCode b"

definition less_ty :: "ty \<Rightarrow> ty \<Rightarrow> bool" where
  "less_ty a b \<longleftrightarrow> typeCode a < typeCode b"

instance
proof
  fix x y z :: ty
  show "(x < y) = (x \<le> y \<and> \<not> y \<le> x)"
    unfolding less_eq_ty_def less_ty_def by (rule less_le_not_le)
  show "x \<le> x" unfolding less_eq_ty_def by (rule order_refl)
  show "x \<le> y \<Longrightarrow> y \<le> z \<Longrightarrow> x \<le> z"
    unfolding less_eq_ty_def by (rule order_trans)
  show "x \<le> y \<Longrightarrow> y \<le> x \<Longrightarrow> x = y"
    unfolding less_eq_ty_def using typeCode_inj [of x y] by (metis order_antisym)
  show "x \<le> y \<or> y \<le> x" unfolding less_eq_ty_def by (rule linear)
qed

end

subsection \<open>The canonical order of requirements\<close>

text \<open>
  Modelled from the spec: the order of the canonicalized sequence of requirements. A
  requirement is coded by its kind, its subject and its constraint, and requirements
  are compared by their codes; the spec asks only for a canonical sequence, this is
  the structural one.
\<close>

fun layoutCode :: "layoutConstraint \<Rightarrow> nat" where
  "layoutCode ClassLayout = 0"
| "layoutCode NativeClassLayout = 1"
| "layoutCode TrivialLayout = 2"
| "layoutCode RefCountedObjectLayout = 3"
| "layoutCode UnknownLayout = 4"

text \<open>Modelled from the spec: the code of a requirement.\<close>

fun requirementCode :: "requirement \<Rightarrow> nat list" where
  "requirementCode (ConformanceReq t p) = 0 # typeCode t @ stringCode p"
| "requirementCode (SuperclassReq t c) = 1 # typeCode t @ typeCode c"
| "requirementCode (SameTypeReq t u) = 2 # typeCode t @ typeCode u"
| "requirementCode (LayoutReq t l) = [3, layoutCode l] @ typeCode t"

text \<open>The code determines the requirement.\<close>

lemma layoutCode_inj: "layoutCode l = layoutCode m \<longleftrightarrow> l = m"
  by (cases l; cases m) simp_all

lemma requirementCode_inj: "requirementCode r = requirementCode q \<longleftrightarrow> r = q"
proof
  assume h: "requirementCode r = requirementCode q"
  show "r = q"
  proof (cases r)
    case (ConformanceReq t p)
    with h obtain t' p' where q: "q = ConformanceReq t' p'" by (cases q) auto
    with h ConformanceReq have "typeCode t @ stringCode p = typeCode t' @ stringCode p'" by simp
    from typeCode_prefix [OF this] stringCode_prefix [of p "[]" p' "[]"] q ConformanceReq
    show ?thesis by simp
  next
    case (SuperclassReq t c)
    with h obtain t' c' where q: "q = SuperclassReq t' c'" by (cases q) auto
    with h SuperclassReq have "typeCode t @ typeCode c = typeCode t' @ typeCode c'" by simp
    from typeCode_prefix [OF this] q SuperclassReq show ?thesis by (simp add: typeCode_inj)
  next
    case (SameTypeReq t u)
    with h obtain t' u' where q: "q = SameTypeReq t' u'" by (cases q) auto
    with h SameTypeReq have "typeCode t @ typeCode u = typeCode t' @ typeCode u'" by simp
    from typeCode_prefix [OF this] q SameTypeReq show ?thesis by (simp add: typeCode_inj)
  next
    case (LayoutReq t l)
    with h obtain t' l' where q: "q = LayoutReq t' l'" by (cases q) auto
    with h LayoutReq show ?thesis by (simp add: typeCode_inj layoutCode_inj)
  qed
qed simp

text \<open>The order of requirements is the order of their codes.\<close>

instantiation requirement :: linorder
begin

definition less_eq_requirement :: "requirement \<Rightarrow> requirement \<Rightarrow> bool" where
  "less_eq_requirement r q \<longleftrightarrow> requirementCode r \<le> requirementCode q"

definition less_requirement :: "requirement \<Rightarrow> requirement \<Rightarrow> bool" where
  "less_requirement r q \<longleftrightarrow> requirementCode r < requirementCode q"

instance
proof
  fix x y z :: requirement
  show "(x < y) = (x \<le> y \<and> \<not> y \<le> x)"
    unfolding less_eq_requirement_def less_requirement_def by (rule less_le_not_le)
  show "x \<le> x" unfolding less_eq_requirement_def by (rule order_refl)
  show "x \<le> y \<Longrightarrow> y \<le> z \<Longrightarrow> x \<le> z"
    unfolding less_eq_requirement_def by (rule order_trans)
  show "x \<le> y \<Longrightarrow> y \<le> x \<Longrightarrow> x = y"
    unfolding less_eq_requirement_def using requirementCode_inj [of x y] by (metis order_antisym)
  show "x \<le> y \<or> y \<le> x" unfolding less_eq_requirement_def by (rule linear)
qed

end

subsection \<open>The state of the builder\<close>

text \<open>
  Modelled from the spec: the state of the builder. \<^verbatim>\<open>parameters\<close> are the generic
  parameters in the order they were added (declaration order); \<^verbatim>\<open>representative\<close> gives
  the canonical type of the equivalence class of a type (a type that no same-type
  requirement has touched is a class of its own); \<^verbatim>\<open>members\<close> are the types the builder
  has seen as parameters and as subjects or sides of requirements, in the order they
  came; \<^verbatim>\<open>constraints\<close> are the conformance, superclass and layout requirements in the
  order they were attached; \<^verbatim>\<open>conflicts\<close> are the requirements diagnosed as
  contradicting, in the order they were diagnosed.
\<close>

record builderState =
  parameters :: "genericParam list"
  representative :: "ty \<Rightarrow> ty"
  members :: "ty list"
  constraints :: "requirement list"
  conflicts :: "requirement list"

text \<open>Modelled from the spec: a new builder.\<close>

definition emptyBuilder :: builderState where
  "emptyBuilder =
     \<lparr>parameters = [], representative = (\<lambda>t. t), members = [], constraints = [],
      conflicts = []\<rparr>"

text \<open>Modelled from the spec: \<^verbatim>\<open>addGenericParameter(p)\<close> registers a fresh equivalence
  class containing only \<^verbatim>\<open>p\<close>.\<close>

definition addGenericParameter :: "genericParam \<Rightarrow> builderState \<Rightarrow> builderState" where
  "addGenericParameter p st =
     st\<lparr>parameters := parameters st @ [p],
        members := members st @ [GenericTypeParamType p]\<rparr>"

text \<open>Modelled from the spec: the union of the classes of representatives \<^verbatim>\<open>x\<close> and
  \<^verbatim>\<open>y\<close> has the one that comes first in the structural order as its representative
  (union by structure, not by rank or by the order of the calls).\<close>

definition relabel :: "ty \<Rightarrow> ty \<Rightarrow> ty \<Rightarrow> ty" where
  "relabel x y v = (if v = x \<or> v = y then min x y else v)"

text \<open>Modelled from the spec: merging a requirement into the equivalence classes. A
  same-type requirement unions the classes of its two sides; any other requirement is
  attached to the class of its subject (the class is looked up through
  \<^verbatim>\<open>representative\<close> when the constraints are read).\<close>

fun mergeRequirement :: "requirement \<Rightarrow> builderState \<Rightarrow> builderState" where
  "mergeRequirement (SameTypeReq a b) st =
     st\<lparr>representative :=
          (\<lambda>t. relabel (representative st a) (representative st b) (representative st t)),
        members := members st @ [a, b]\<rparr>"
| "mergeRequirement (ConformanceReq t p) st =
     st\<lparr>members := members st @ [t], constraints := constraints st @ [ConformanceReq t p]\<rparr>"
| "mergeRequirement (SuperclassReq t c) st =
     st\<lparr>members := members st @ [t], constraints := constraints st @ [SuperclassReq t c]\<rparr>"
| "mergeRequirement (LayoutReq t l) st =
     st\<lparr>members := members st @ [t], constraints := constraints st @ [LayoutReq t l]\<rparr>"

text \<open>Modelled from the spec: the superclass that a superclass requirement gives.\<close>

fun superclassBound :: "requirement \<Rightarrow> ty option" where
  "superclassBound (SuperclassReq t c) = Some c"
| "superclassBound (ConformanceReq t p) = None"
| "superclassBound (SameTypeReq t u) = None"
| "superclassBound (LayoutReq t l) = None"

text \<open>Modelled from the spec: the superclass bounds attached to the class of a type.\<close>

definition classBounds :: "builderState \<Rightarrow> ty \<Rightarrow> ty list" where
  "classBounds st t =
     List.map_filter superclassBound
       (filter (\<lambda>r. representative st (getFirstType r) = representative st t) (constraints st))"

text \<open>Modelled from the spec: the concrete types in the class of a type, the type
  itself included.\<close>

definition classConcreteTypes :: "builderState \<Rightarrow> ty \<Rightarrow> ty list" where
  "classConcreteTypes st t =
     filter (\<lambda>x. \<not> isTypeParameter x \<and> representative st x = representative st t)
       (t # members st)"

text \<open>Modelled from the spec: two superclasses are incompatible when they differ and
  neither derives from the other; the class hierarchy is a parameter.\<close>

definition incompatible :: "(ty \<Rightarrow> ty \<Rightarrow> bool) \<Rightarrow> ty \<Rightarrow> ty \<Rightarrow> bool" where
  "incompatible isSubclassOf c d \<longleftrightarrow> c \<noteq> d \<and> \<not> isSubclassOf c d \<and> \<not> isSubclassOf d c"

text \<open>Modelled from the spec: a requirement contradicts what is established when it
  gives a class a superclass incompatible with one it has, or unions two classes with
  incompatible superclasses or with different concrete types.\<close>

fun contradicts :: "(ty \<Rightarrow> ty \<Rightarrow> bool) \<Rightarrow> builderState \<Rightarrow> requirement \<Rightarrow> bool" where
  "contradicts isSubclassOf st (SuperclassReq t c) =
     (\<exists>d \<in> set (classBounds st t). incompatible isSubclassOf c d)"
| "contradicts isSubclassOf st (SameTypeReq a b) =
     (representative st a \<noteq> representative st b \<and>
      ((\<exists>c \<in> set (classBounds st a). \<exists>d \<in> set (classBounds st b). incompatible isSubclassOf c d) \<or>
       (\<exists>x \<in> set (classConcreteTypes st a). \<exists>y \<in> set (classConcreteTypes st b). x \<noteq> y)))"
| "contradicts isSubclassOf st (ConformanceReq t p) = False"
| "contradicts isSubclassOf st (LayoutReq t l) = False"

text \<open>
  Modelled from the spec: \<^verbatim>\<open>addRequirement\<close>. A requirement that contradicts what is
  established is rejected by recording a conflict for it, which the declaration is
  diagnosed with (7: its type becomes the error sentinel); the conflict is attributed
  to the requirement that came later. The requirement is merged into the classes all
  the same: by the key invariant of 4.2 the order of the calls decides the attribution
  of an error, never the final signature.
\<close>

definition addRequirement ::
  "(ty \<Rightarrow> ty \<Rightarrow> bool) \<Rightarrow> requirement \<Rightarrow> builderState \<Rightarrow> builderState" where
  "addRequirement isSubclassOf r st =
     (mergeRequirement r st)
       \<lparr>conflicts := conflicts st @ (if contradicts isSubclassOf st r then [r] else [])\<rparr>"

text \<open>Modelled from the spec: canonicalization writes every constraint on the
  representative of the class of its subject.\<close>

fun withSubject :: "ty \<Rightarrow> requirement \<Rightarrow> requirement" where
  "withSubject s (ConformanceReq t p) = ConformanceReq s p"
| "withSubject s (SuperclassReq t c) = SuperclassReq s c"
| "withSubject s (SameTypeReq t u) = SameTypeReq s u"
| "withSubject s (LayoutReq t l) = LayoutReq s l"

text \<open>Modelled from the spec: the constraints, each on the representative of its
  class.\<close>

definition canonicalConstraints :: "builderState \<Rightarrow> requirement list" where
  "canonicalConstraints st =
     map (\<lambda>r. withSubject (representative st (getFirstType r)) r) (constraints st)"

text \<open>Modelled from the spec: a superclass bound is redundant when the same class has
  a bound that properly derives from it.\<close>

definition impliedBound :: "(ty \<Rightarrow> ty \<Rightarrow> bool) \<Rightarrow> requirement list \<Rightarrow> requirement \<Rightarrow> bool" where
  "impliedBound isSubclassOf retained r =
     (case superclassBound r of
        None \<Rightarrow> False
      | Some c \<Rightarrow>
          (\<exists>q \<in> set retained. getFirstType q = getFirstType r \<and>
             (case superclassBound q of
                None \<Rightarrow> False
              | Some d \<Rightarrow> d \<noteq> c \<and> isSubclassOf d c \<and> \<not> isSubclassOf c d)))"

text \<open>Modelled from the spec: every member of a class other than the representative is
  tied to the representative by a same-type requirement.\<close>

definition sameTypeRequirements :: "builderState \<Rightarrow> requirement list" where
  "sameTypeRequirements st =
     map (\<lambda>t. SameTypeReq (representative st t) t)
       (filter (\<lambda>t. representative st t \<noteq> t) (members st))"

text \<open>
  Modelled from the spec: \<^verbatim>\<open>computeGenericSignature\<close> (the name is taken by the field of
  the type checker above). The signature has the parameters in declaration order and
  the canonicalized sequence of requirements: the constraints on the representatives,
  without the redundant ones and without duplicates, and the same-type requirements,
  in the canonical order.
\<close>

definition computeMinimizedSignature ::
  "(ty \<Rightarrow> ty \<Rightarrow> bool) \<Rightarrow> builderState \<Rightarrow> GenericSignature" where
  "computeMinimizedSignature isSubclassOf st =
     \<lparr>getGenericParams = parameters st,
      getRequirements =
        sort (remdups
          (filter (\<lambda>r. \<not> impliedBound isSubclassOf (canonicalConstraints st) r)
             (canonicalConstraints st) @
           sameTypeRequirements st))\<rparr>"


subsection \<open>The calls of the sources on the builder\<close>

text \<open>
  Modelled from the spec: what the calls of the sources mean to the builder. The list
  of calls is the one the functions above produce. What the builder reads from its
  surroundings is a parameter: the signature behind a pointer, the requirements
  declared in the inheritance clause of a parameter, the requirements inferred from
  what \<^verbatim>\<open>inferRequirements\<close> is given, and the class hierarchy.
\<close>

record builderContext =
  outerSignatureAt :: "sigRef \<Rightarrow> GenericSignature option"
  inheritedRequirements :: "genericParam \<Rightarrow> requirement list"
  inferredRequirements :: "string \<Rightarrow> requirement list"
  isSubclassOf :: "ty \<Rightarrow> ty \<Rightarrow> bool"

text \<open>Modelled from the spec: the parameters that a call brings, and below the
  requirements. \<^verbatim>\<open>addGenericSignature\<close> imports the parameters and requirements of the outer signature
  verbatim; \<^verbatim>\<open>addGenericParameterRequirements\<close> expands the declared constraints of a
  parameter; \<^verbatim>\<open>inferRequirements\<close> adds what it infers.\<close>

fun callParameters :: "builderContext \<Rightarrow> builderCall \<Rightarrow> genericParam list" where
  "callParameters ctx (AddGenericSignature outer) =
     (case outer of
        None \<Rightarrow> []
      | Some sig \<Rightarrow> (case outerSignatureAt ctx sig of None \<Rightarrow> [] | Some s \<Rightarrow> getGenericParams s))"
| "callParameters ctx (AddGenericParameter p) = [p]"
| "callParameters ctx (AddGenericParameterRequirements p) = []"
| "callParameters ctx (AddRequirement r) = []"
| "callParameters ctx (InferRequirements n) = []"

text \<open>Modelled from the spec: the requirements that a call brings.\<close>

fun callRequirements :: "builderContext \<Rightarrow> builderCall \<Rightarrow> requirement list" where
  "callRequirements ctx (AddGenericSignature outer) =
     (case outer of
        None \<Rightarrow> []
      | Some sig \<Rightarrow> (case outerSignatureAt ctx sig of None \<Rightarrow> [] | Some s \<Rightarrow> getRequirements s))"
| "callRequirements ctx (AddGenericParameter p) = []"
| "callRequirements ctx (AddGenericParameterRequirements p) = inheritedRequirements ctx p"
| "callRequirements ctx (AddRequirement r) = [r]"
| "callRequirements ctx (InferRequirements n) = inferredRequirements ctx n"

text \<open>Modelled from the spec: a call adds its parameters, then its requirements, each
  through \<^verbatim>\<open>addRequirement\<close>.\<close>

definition applyCall :: "builderContext \<Rightarrow> builderCall \<Rightarrow> builderState \<Rightarrow> builderState" where
  "applyCall ctx call st =
     fold (addRequirement (isSubclassOf ctx)) (callRequirements ctx call)
       (fold addGenericParameter (callParameters ctx call) st)"

text \<open>Modelled from the spec: a new builder run on a list of calls.\<close>

definition runBuilder :: "builderContext \<Rightarrow> builderCall list \<Rightarrow> builderState" where
  "runBuilder ctx calls = fold (applyCall ctx) calls emptyBuilder"


subsection \<open>The effect of the calls, field by field\<close>





subsection \<open>Two runs of the builder\<close>

text \<open>
  The parameters \<^verbatim>\<open>T\<close> and \<^verbatim>\<open>U\<close> with \<^verbatim>\<open>U == T\<close>, \<^verbatim>\<open>U: Equatable\<close>, \<^verbatim>\<open>T: Base\<close> and
  \<^verbatim>\<open>U: Derived\<close>, where \<^verbatim>\<open>Derived\<close> derives from \<^verbatim>\<open>Base\<close>, in two orders of the calls; and
  \<^verbatim>\<open>T\<close> with the unrelated superclasses \<^verbatim>\<open>Base\<close> and \<^verbatim>\<open>Other\<close>, in both orders.
\<close>

definition tyU :: ty where
  "tyU = GenericTypeParamType (GenericParam 0 1)"

text \<open>The surroundings of the example runs: the store of the example type checker,
  no inherited or inferred requirements, and \<^verbatim>\<open>Derived\<close> deriving from \<^verbatim>\<open>Base\<close>.\<close>

definition exampleBuilderContext :: builderContext where
  "exampleBuilderContext =
     \<lparr>outerSignatureAt = signatureAt exampleTypeChecker,
      inheritedRequirements = (\<lambda>p. []),
      inferredRequirements = (\<lambda>n. []),
      isSubclassOf = (\<lambda>c d. c = NominalType ''Derived'' [] \<and> d = NominalType ''Base'' [])\<rparr>"

definition exampleCalls :: "builderCall list" where
  "exampleCalls =
     [AddGenericSignature None, AddGenericParameter paramT, AddGenericParameter (GenericParam 0 1),
      AddRequirement (SameTypeReq tyU tyT),
      AddRequirement (ConformanceReq tyU ''Equatable''),
      AddRequirement (SuperclassReq tyT (NominalType ''Base'' [])),
      AddRequirement (SuperclassReq tyU (NominalType ''Derived'' []))]"




section \<open>Properties of the requirement checker\<close>

subsection \<open>The loop body\<close>

lemma intoContext_ProtocolType: "intoContext a (ProtocolType p) = ProtocolType p"
  by (simp add: intoContext_def)

lemma requirementFailed_events:
  "requirementFailed a ps r (getFirstType c) (getSecondType c) (diagnosticOf c) (diagnosticNoteOf c) st =
     Return Failure (st\<lparr>events := events st @ failureEvents a ps r c\<rparr>)"
  by (simp add: requirementFailed_def failureEvents_def Let_def)

lemma checkRequirement_alt:
  "checkRequirement a ps r st =
     (case concreteRequirement a ps r of
        None \<Rightarrow> Continue (st\<lparr>valid := False\<rparr>)
      | Some c \<Rightarrow> checkConcrete a ps r c st)"
proof (cases "if ps = [] then subst (substType a) r else Some r")
  case None
  then show ?thesis
    by (simp add: checkRequirement_def concreteRequirement_def)
next
  case (Some req)
  show ?thesis
  proof (cases req)
    case (ConformanceReq t p)
    have "requirementFailed a ps r (intoContext a t) (Some (ProtocolType p))
            type_does_not_conform_owner type_does_not_inherit_or_conform_requirement st =
          Return Failure
            (st\<lparr>events := events st @ failureEvents a ps r (ConformanceReq (intoContext a t) p)\<rparr>)"
      using requirementFailed_events [of a ps r "ConformanceReq (intoContext a t) p" st] by simp
    with Some ConformanceReq show ?thesis
      by (simp add: checkRequirement_def concreteRequirement_def checkConcrete_def vetoed_def
          conformanceFound_def Let_def intoContext_ProtocolType split: option.split)
  next
    case (SuperclassReq t s)
    have "requirementFailed a ps r (intoContext a t) (Some (intoContext a s))
            type_does_not_inherit type_does_not_inherit_or_conform_requirement st =
          Return Failure
            (st\<lparr>events := events st @
               failureEvents a ps r (SuperclassReq (intoContext a t) (intoContext a s))\<rparr>)"
      using requirementFailed_events [of a ps r "SuperclassReq (intoContext a t) (intoContext a s)" st]
      by simp
    with Some SuperclassReq show ?thesis
      by (simp add: checkRequirement_def concreteRequirement_def checkConcrete_def vetoed_def
          Let_def split: option.split)
  next
    case (SameTypeReq t s)
    have "requirementFailed a ps r (intoContext a t) (Some (intoContext a s))
            types_not_equal types_not_equal_requirement st =
          Return Failure
            (st\<lparr>events := events st @
               failureEvents a ps r (SameTypeReq (intoContext a t) (intoContext a s))\<rparr>)"
      using requirementFailed_events [of a ps r "SameTypeReq (intoContext a t) (intoContext a s)" st]
      by simp
    with Some SameTypeReq show ?thesis
      by (simp add: checkRequirement_def concreteRequirement_def checkConcrete_def vetoed_def
          Let_def split: option.split)
  next
    case (LayoutReq t l)
    have "requirementFailed a ps r (intoContext a t) None
            type_is_not_a_class anyobject_requirement st =
          Return Failure
            (st\<lparr>events := events st @ failureEvents a ps r (LayoutReq (intoContext a t) l)\<rparr>)"
      using requirementFailed_events [of a ps r "LayoutReq (intoContext a t) l" st] by simp
    with Some LayoutReq show ?thesis
      by (simp add: checkRequirement_def concreteRequirement_def checkConcrete_def vetoed_def
          Let_def split: option.split)
  qed
qed

text \<open>The effect of one step on the work-list: at most a push, whatever the list is.\<close>

lemma checkRequirement_Return:
  assumes "checkRequirement a ps r st = Return res st'"
  shows "res = Failure \<and> valid st' = valid st \<and> pendingReqs st' = pendingReqs st \<and>
         (\<forall>S. checkRequirement a ps r (st\<lparr>pendingReqs := S\<rparr>) = Return res (st'\<lparr>pendingReqs := S\<rparr>))"
proof (cases "concreteRequirement a ps r")
  case None
  with assms show ?thesis by (simp add: checkRequirement_alt)
next
  case (Some c)
  with assms show ?thesis
    by (cases c)
      (auto simp: checkRequirement_alt checkConcrete_def split: if_splits option.splits)
qed

lemma checkRequirement_Continue:
  assumes "checkRequirement a ps r st = Continue st'"
  shows "\<exists>P. pendingReqs st' = P @ pendingReqs st \<and>
           (\<forall>S. checkRequirement a ps r (st\<lparr>pendingReqs := S\<rparr>) = Continue (st'\<lparr>pendingReqs := P @ S\<rparr>))"
proof (cases "concreteRequirement a ps r")
  case None
  with assms have "st' = st\<lparr>valid := False\<rparr>" by (simp add: checkRequirement_alt)
  with None show ?thesis by (simp add: checkRequirement_alt)
next
  case (Some c)
  show ?thesis
  proof (cases "vetoed a c")
    case True
    with Some assms show ?thesis by (simp add: checkRequirement_alt checkConcrete_def)
  next
    case False
    with Some assms show ?thesis
      by (cases c)
        (auto simp: checkRequirement_alt checkConcrete_def conformanceFound_def Let_def
          split: if_splits option.splits)
  qed
qed

subsection \<open>The loops\<close>

lemma checkRequirements_Failure:
  "checkRequirements a ps rs st = Return res st' \<Longrightarrow> res = Failure"
proof (induction rs arbitrary: st)
  case Nil
  then show ?case by simp
next
  case (Cons r rs)
  show ?case
  proof (cases "checkRequirement a ps r st")
    case (Return res1 st1)
    with Cons.prems have "res = res1" by simp
    with checkRequirement_Return [OF Return] show ?thesis by simp
  next
    case (Continue st1)
    with Cons.prems have "checkRequirements a ps rs st1 = Return res st'" by simp
    then show ?thesis by (rule Cons.IH)
  qed
qed

text \<open>The inner loop reads the work-list only to push onto it.\<close>

lemma checkRequirements_frame:
  "checkRequirements a ps rs st = Continue st' \<Longrightarrow>
   \<exists>P. pendingReqs st' = P @ pendingReqs st \<and>
       (\<forall>S. checkRequirements a ps rs (st\<lparr>pendingReqs := S\<rparr>) =
              Continue (st'\<lparr>pendingReqs := P @ S\<rparr>))"
proof (induction rs arbitrary: st)
  case Nil
  then show ?case by auto
next
  case (Cons r rs)
  show ?case
  proof (cases "checkRequirement a ps r st")
    case (Return res1 st1)
    with Cons.prems show ?thesis by simp
  next
    case (Continue st1)
    from checkRequirement_Continue [OF Continue] obtain P1 where
      P1: "pendingReqs st1 = P1 @ pendingReqs st"
      and F1: "\<And>S. checkRequirement a ps r (st\<lparr>pendingReqs := S\<rparr>) =
                 Continue (st1\<lparr>pendingReqs := P1 @ S\<rparr>)"
      by blast
    from Cons.prems Continue have "checkRequirements a ps rs st1 = Continue st'" by simp
    from Cons.IH [OF this] obtain P2 where
      P2: "pendingReqs st' = P2 @ pendingReqs st1"
      and F2: "\<And>S. checkRequirements a ps rs (st1\<lparr>pendingReqs := S\<rparr>) =
                 Continue (st'\<lparr>pendingReqs := P2 @ S\<rparr>)"
      by blast
    have "pendingReqs st' = (P2 @ P1) @ pendingReqs st"
      using P1 P2 by simp
    moreover have "checkRequirements a ps (r # rs) (st\<lparr>pendingReqs := S\<rparr>) =
            Continue (st'\<lparr>pendingReqs := (P2 @ P1) @ S\<rparr>)" for S
      using F1 [of S] F2 [of "P1 @ S"] by simp
    ultimately show ?thesis by blast
  qed
qed

lemma checkRequirements_Return_frame:
  "checkRequirements a ps rs st = Return res st' \<Longrightarrow>
   \<exists>st''. checkRequirements a ps rs (st\<lparr>pendingReqs := S\<rparr>) = Return res st'' \<and>
          events st'' = events st'"
proof (induction rs arbitrary: st S)
  case Nil
  then show ?case by simp
next
  case (Cons r rs)
  show ?case
  proof (cases "checkRequirement a ps r st")
    case (Return res1 st1)
    with Cons.prems have eq: "res1 = res" "st1 = st'" by simp_all
    from checkRequirement_Return [OF Return]
    have "checkRequirement a ps r (st\<lparr>pendingReqs := S\<rparr>) = Return res1 (st1\<lparr>pendingReqs := S\<rparr>)"
      by blast
    with eq show ?thesis by simp
  next
    case (Continue st1)
    from checkRequirement_Continue [OF Continue] obtain P1 where
      F1: "\<And>S. checkRequirement a ps r (st\<lparr>pendingReqs := S\<rparr>) =
                 Continue (st1\<lparr>pendingReqs := P1 @ S\<rparr>)"
      by blast
    from Cons.prems Continue have "checkRequirements a ps rs st1 = Return res st'" by simp
    from Cons.IH [OF this, of "P1 @ S"] F1 [of S] show ?thesis by simp
  qed
qed

text \<open>More fuel does not change a result.\<close>

lemma checkPending_mono:
  "checkPending n a st = Some x \<Longrightarrow> checkPending (n + k) a st = Some x"
proof (induction n arbitrary: st)
  case 0
  then show ?case by simp
next
  case (Suc n)
  then show ?case
    by (auto split: list.splits step.splits)
qed

subsection \<open>The work-list against the recursive reading\<close>

inductive_simps pendingHold_Nil: "pendingHold a [] b"

inductive_simps pendingHold_Cons: "pendingHold a (c # cs) b"

lemma pendingHold_append:
  "pendingHold a (P @ Q) b \<longleftrightarrow> (\<exists>b1 b2. pendingHold a P b1 \<and> pendingHold a Q b2 \<and> b = (b1 \<and> b2))"
proof (induction P arbitrary: b)
  case Nil
  show ?case
    by (auto simp: pendingHold_Nil)
next
  case (Cons c P)
  show ?case
  proof
    assume "pendingHold a ((c # P) @ Q) b"
    then obtain b1 b2 where
      c: "requirementsHold a (Parents c) (Requirements c) b1"
      and r: "pendingHold a (P @ Q) b2" and b: "b = (b1 \<and> b2)"
      by (auto simp: pendingHold_Cons)
    from r Cons.IH obtain b3 b4 where
      "pendingHold a P b3" "pendingHold a Q b4" "b2 = (b3 \<and> b4)" by blast
    with c b have "pendingHold a (c # P) (b1 \<and> b3)" "pendingHold a Q b4" "b = ((b1 \<and> b3) \<and> b4)"
      by (auto intro: pendingHold.intros)
    then show "\<exists>b1 b2. pendingHold a (c # P) b1 \<and> pendingHold a Q b2 \<and> b = (b1 \<and> b2)"
      by blast
  next
    assume "\<exists>b1 b2. pendingHold a (c # P) b1 \<and> pendingHold a Q b2 \<and> b = (b1 \<and> b2)"
    then obtain b1 b2 where
      cp: "pendingHold a (c # P) b1" and q: "pendingHold a Q b2" and b: "b = (b1 \<and> b2)"
      by blast
    from cp obtain b3 b4 where
      c: "requirementsHold a (Parents c) (Requirements c) b3"
      and p: "pendingHold a P b4" and b1: "b1 = (b3 \<and> b4)"
      by (auto simp: pendingHold_Cons)
    from p q Cons.IH have "pendingHold a (P @ Q) (b4 \<and> b2)" by blast
    with c have "pendingHold a (c # P @ Q) (b3 \<and> (b4 \<and> b2))"
      by (rule pendingHold.Set)
    with b b1 show "pendingHold a ((c # P) @ Q) b" by simp
  qed
qed

lemma pendingHold_single:
  "pendingHold a [\<lparr>Requirements = rs, Parents = ps\<rparr>] b \<longleftrightarrow> requirementsHold a ps rs b"
proof
  assume "pendingHold a [\<lparr>Requirements = rs, Parents = ps\<rparr>] b"
  then show "requirementsHold a ps rs b"
    by (auto simp: pendingHold_Cons pendingHold_Nil)
next
  assume "requirementsHold a ps rs b"
  then have "pendingHold a [\<lparr>Requirements = rs, Parents = ps\<rparr>] (b \<and> True)"
    using pendingHold.Set [OF _ pendingHold.NoSet, of a "\<lparr>Requirements = rs, Parents = ps\<rparr>" b]
    by simp
  then show "pendingHold a [\<lparr>Requirements = rs, Parents = ps\<rparr>] b" by simp
qed

text \<open>Soundness of the inner loop: what it passes holds, given that what it pushed holds.\<close>

lemma checkRequirements_sound:
  "checkRequirements a ps rs st = Continue st' \<Longrightarrow>
   \<exists>P bl. pendingReqs st' = P @ pendingReqs st \<and> valid st' = (valid st \<and> bl) \<and>
          (\<forall>bp. pendingHold a P bp \<longrightarrow> requirementsHold a ps rs (bl \<and> bp))"
proof (induction rs arbitrary: st)
  case Nil
  then have "st' = st" by simp
  then have "pendingReqs st' = [] @ pendingReqs st \<and> valid st' = (valid st \<and> True) \<and>
          (\<forall>bp. pendingHold a [] bp \<longrightarrow> requirementsHold a ps [] (True \<and> bp))"
    by (auto simp: pendingHold_Nil intro: requirementsHold.intros)
  then show ?case by blast
next
  case (Cons r rs)
  show ?case
  proof (cases "checkRequirement a ps r st")
    case (Return res1 st1)
    with Cons.prems show ?thesis by simp
  next
    case (Continue st1)
    with Cons.prems have rest: "checkRequirements a ps rs st1 = Continue st'" by simp
    from Cons.IH [OF rest] obtain P bl where
      P: "pendingReqs st' = P @ pendingReqs st1" and v: "valid st' = (valid st1 \<and> bl)"
      and H: "\<And>bp. pendingHold a P bp \<Longrightarrow> requirementsHold a ps rs (bl \<and> bp)"
      by blast
    show ?thesis
    proof (cases "concreteRequirement a ps r")
      case None
      with Continue have st1: "st1 = st\<lparr>valid := False\<rparr>" by (simp add: checkRequirement_alt)
      have "requirementsHold a ps (r # rs) (False \<and> bp)" if "pendingHold a P bp" for bp
        using requirementsHold.SubstitutionFails [OF None H [OF that]] by simp
      with P v st1 have "pendingReqs st' = P @ pendingReqs st \<and> valid st' = (valid st \<and> False) \<and>
          (\<forall>bp. pendingHold a P bp \<longrightarrow> requirementsHold a ps (r # rs) (False \<and> bp))"
        by simp
      then show ?thesis by blast
    next
      case (Some c)
      show ?thesis
      proof (cases "vetoed a c")
        case True
        with Some Continue have st1: "st1 = st" by (simp add: checkRequirement_alt checkConcrete_def)
        have "requirementsHold a ps (r # rs) (bl \<and> bp)" if "pendingHold a P bp" for bp
          using requirementsHold.Vetoed [OF Some True H [OF that]] .
        with P v st1 show ?thesis by blast
      next
        case False
        show ?thesis
        proof (cases "\<exists>t p. c = ConformanceReq t p")
          case True
          then obtain t p where c: "c = ConformanceReq t p" by blast
          with Some False Continue obtain conf where
            conf: "conformsToProtocol a t p = Some conf"
            and st1: "st1 = conformanceFound a ps r t p conf st"
            by (auto simp: checkRequirement_alt checkConcrete_def split: option.splits if_splits)
          define Q where "Q = (if getConditionalRequirements conf \<noteq> []
            then [\<lparr>Requirements = getConditionalRequirements conf, Parents = ps @ [(t, p)]\<rparr>] else [])"
          have pend1: "pendingReqs st1 = Q @ pendingReqs st" and val1: "valid st1 = valid st"
            by (simp_all add: st1 conformanceFound_def Q_def Let_def)
          have "requirementsHold a ps (r # rs) (bl \<and> bp)" if "pendingHold a (P @ Q) bp" for bp
          proof -
            from that obtain b1 b2 where
              b1: "pendingHold a P b1" and b2: "pendingHold a Q b2" and bp: "bp = (b1 \<and> b2)"
              by (auto simp: pendingHold_append)
            have "requirementsHold a (ps @ [(t, p)]) (getConditionalRequirements conf) b2"
            proof (cases "getConditionalRequirements conf = []")
              case True
              with b2 have "b2" by (auto simp: Q_def pendingHold_Nil)
              with True show ?thesis by (simp add: requirementsHold.NoRequirement)
            next
              case False
              with b2 show ?thesis by (simp add: Q_def pendingHold_single)
            qed
            from requirementsHold.Conforms [OF Some [unfolded c] False [unfolded c] conf this H [OF b1]]
            have "requirementsHold a ps (r # rs) (b2 \<and> bl \<and> b1)" .
            moreover have "(b2 \<and> bl \<and> b1) = (bl \<and> bp)" using bp by auto
            ultimately show ?thesis by simp
          qed
          moreover have "pendingReqs st' = (P @ Q) @ pendingReqs st" using P pend1 by simp
          moreover have "valid st' = (valid st \<and> bl)" using v val1 by simp
          ultimately show ?thesis by blast
        next
          case notConf: False
          then have k: "getKind c \<noteq> Conformance" by (cases c) auto
          from notConf Some False Continue have h: "holds a c" and st1: "st1 = st"
            by (cases c; auto simp: checkRequirement_alt checkConcrete_def split: if_splits)+
          have "requirementsHold a ps (r # rs) (bl \<and> bp)" if "pendingHold a P bp" for bp
            using requirementsHold.Satisfied [OF Some False k h H [OF that]] .
          with P v st1 show ?thesis by blast
        qed
      qed
    qed
  qed
qed

lemma checkPending_sound:
  "checkPending n a st = Some (res, evs) \<Longrightarrow> res \<noteq> Failure \<Longrightarrow>
   \<exists>b. pendingHold a (pendingReqs st) b \<and>
       res = (if valid st \<and> b then Success else SubstitutionFailure)"
proof (induction n arbitrary: st)
  case 0
  then show ?case by simp
next
  case (Suc n)
  show ?case
  proof (cases "pendingReqs st")
    case Nil
    with Suc.prems have "res = (if valid st \<and> True then Success else SubstitutionFailure)"
      by (auto split: if_splits)
    with Nil show ?thesis using pendingHold.NoSet by metis
  next
    case (Cons c rest)
    show ?thesis
    proof (cases "checkRequirements a (Parents c) (Requirements c) (st\<lparr>pendingReqs := rest\<rparr>)")
      case (Return res1 st1)
      with Cons Suc.prems checkRequirements_Failure [OF Return] show ?thesis by simp
    next
      case (Continue st1)
      with Cons Suc.prems have run: "checkPending n a st1 = Some (res, evs)" by simp
      from Suc.IH [OF run Suc.prems(2)] obtain b where
        b: "pendingHold a (pendingReqs st1) b"
        and res: "res = (if valid st1 \<and> b then Success else SubstitutionFailure)"
        by blast
      from checkRequirements_sound [OF Continue] obtain P bl where
        P: "pendingReqs st1 = P @ rest" and v: "valid st1 = (valid st \<and> bl)"
        and H: "\<And>bp. pendingHold a P bp \<Longrightarrow>
                  requirementsHold a (Parents c) (Requirements c) (bl \<and> bp)"
        by auto
      from b P obtain b1 b2 where
        b1: "pendingHold a P b1" and b2: "pendingHold a rest b2" and bb: "b = (b1 \<and> b2)"
        by (auto simp: pendingHold_append)
      from pendingHold.Set [OF H [OF b1] b2]
      have "pendingHold a (pendingReqs st) ((bl \<and> b1) \<and> b2)" by (simp add: Cons)
      moreover have "res = (if valid st \<and> ((bl \<and> b1) \<and> b2) then Success else SubstitutionFailure)"
        using res v bb by auto
      ultimately show ?thesis by blast
    qed
  qed
qed

lemma checkPending_append:
  "checkPending n a st = Some (res, e1) \<Longrightarrow> res \<noteq> Failure \<Longrightarrow>
   checkPending m a \<lparr>valid = (res = Success), pendingReqs = S, events = e1\<rparr> = Some x \<Longrightarrow>
   checkPending (n + m) a (st\<lparr>pendingReqs := pendingReqs st @ S\<rparr>) = Some x"
proof (induction n arbitrary: st)
  case 0
  then show ?case by simp
next
  case (Suc n)
  show ?case
  proof (cases "pendingReqs st")
    case Nil
    with Suc.prems(1) have res: "(res = Success) = valid st" and e1: "e1 = events st"
      by (auto split: if_splits)
    have "st\<lparr>pendingReqs := pendingReqs st @ S\<rparr> = \<lparr>valid = valid st, pendingReqs = S, events = events st\<rparr>"
      using Nil by simp
    with Suc.prems(3) res e1 have "checkPending m a (st\<lparr>pendingReqs := pendingReqs st @ S\<rparr>) = Some x"
      by simp
    from checkPending_mono [OF this, of "Suc n"] show ?thesis by (simp add: add.commute)
  next
    case (Cons c rest)
    show ?thesis
    proof (cases "checkRequirements a (Parents c) (Requirements c) (st\<lparr>pendingReqs := rest\<rparr>)")
      case (Return res1 st1)
      with Cons Suc.prems checkRequirements_Failure [OF Return] show ?thesis by simp
    next
      case (Continue st1)
      with Cons Suc.prems have run: "checkPending n a st1 = Some (res, e1)" by simp
      from checkRequirements_frame [OF Continue] obtain P where
        P: "pendingReqs st1 = P @ rest"
        and F: "\<And>T. checkRequirements a (Parents c) (Requirements c) (st\<lparr>pendingReqs := T\<rparr>) =
                  Continue (st1\<lparr>pendingReqs := P @ T\<rparr>)"
        by auto
      from Suc.IH [OF run Suc.prems(2) Suc.prems(3)]
      have "checkPending (n + m) a (st1\<lparr>pendingReqs := pendingReqs st1 @ S\<rparr>) = Some x" .
      with P F [of "rest @ S"] Cons show ?thesis by simp
    qed
  qed
qed

lemma runsThrough_Nil: "runsThrough a [] True"
proof -
  have "checkPending (Suc 0) a \<lparr>valid = v, pendingReqs = [], events = e\<rparr> =
        Some (if v \<and> True then Success else SubstitutionFailure, e)" for v e
    by simp
  then show ?thesis unfolding runsThrough_def by blast
qed

lemma runsThrough_append:
  assumes "runsThrough a P bp" and "runsThrough a Q bq"
  shows "runsThrough a (P @ Q) (bp \<and> bq)"
  unfolding runsThrough_def
proof (intro allI)
  fix v e
  from assms(1) obtain n1 e1 where
    r1: "checkPending n1 a \<lparr>valid = v, pendingReqs = P, events = e\<rparr> =
           Some (if v \<and> bp then Success else SubstitutionFailure, e1)"
    unfolding runsThrough_def by blast
  from assms(2) obtain n2 e2 where
    r2: "checkPending n2 a \<lparr>valid = (v \<and> bp), pendingReqs = Q, events = e1\<rparr> =
           Some (if (v \<and> bp) \<and> bq then Success else SubstitutionFailure, e2)"
    unfolding runsThrough_def by blast
  have "checkPending (n1 + n2) a
          (\<lparr>valid = v, pendingReqs = P, events = e\<rparr>
             \<lparr>pendingReqs := pendingReqs \<lparr>valid = v, pendingReqs = P, events = e\<rparr> @ Q\<rparr>) =
        Some (if (v \<and> bp) \<and> bq then Success else SubstitutionFailure, e2)"
  proof (rule checkPending_append [OF r1])
    show "(if v \<and> bp then Success else SubstitutionFailure) \<noteq> Failure" by simp
    have eq: "((if v \<and> bp then Success else SubstitutionFailure) = Success) = (v \<and> bp)"
      by simp
    show "checkPending n2 a
            \<lparr>valid = ((if v \<and> bp then Success else SubstitutionFailure) = Success),
             pendingReqs = Q, events = e1\<rparr> =
          Some (if (v \<and> bp) \<and> bq then Success else SubstitutionFailure, e2)"
      unfolding eq by (rule r2)
  qed
  then have "checkPending (n1 + n2) a \<lparr>valid = v, pendingReqs = P @ Q, events = e\<rparr> =
        Some (if v \<and> bp \<and> bq then Success else SubstitutionFailure, e2)"
    by simp
  then show "\<exists>n e'. checkPending n a \<lparr>valid = v, pendingReqs = P @ Q, events = e\<rparr> =
        Some (if v \<and> bp \<and> bq then Success else SubstitutionFailure, e')"
    by blast
qed

text \<open>A set whose inner loop passes, pushing a work-list that runs through, runs through.\<close>

lemma runsThrough_set:
  assumes pass: "\<And>st. \<exists>st'. checkRequirements a ps rs st = Continue st' \<and>
              pendingReqs st' = P @ pendingReqs st \<and> valid st' = (valid st \<and> bl)"
    and P: "runsThrough a P bp"
  shows "runsThrough a [\<lparr>Requirements = rs, Parents = ps\<rparr>] (bl \<and> bp)"
  unfolding runsThrough_def
proof (intro allI)
  fix v e
  from pass [of "\<lparr>valid = v, pendingReqs = [], events = e\<rparr>"] obtain st' where
    c: "checkRequirements a ps rs \<lparr>valid = v, pendingReqs = [], events = e\<rparr> = Continue st'"
    and p: "pendingReqs st' = P" and vl: "valid st' = (v \<and> bl)"
    by auto
  have st': "st' = \<lparr>valid = (v \<and> bl), pendingReqs = P, events = events st'\<rparr>"
    using p vl by simp
  from P obtain n e' where
    "checkPending n a \<lparr>valid = (v \<and> bl), pendingReqs = P, events = events st'\<rparr> =
       Some (if (v \<and> bl) \<and> bp then Success else SubstitutionFailure, e')"
    unfolding runsThrough_def by blast
  with st' have "checkPending n a st' =
       Some (if v \<and> bl \<and> bp then Success else SubstitutionFailure, e')"
    by simp
  with c have "checkPending (Suc n) a
      \<lparr>valid = v, pendingReqs = [\<lparr>Requirements = rs, Parents = ps\<rparr>], events = e\<rparr> =
       Some (if v \<and> bl \<and> bp then Success else SubstitutionFailure, e')"
    by simp
  then show "\<exists>n e'. checkPending n a
      \<lparr>valid = v, pendingReqs = [\<lparr>Requirements = rs, Parents = ps\<rparr>], events = e\<rparr> =
       Some (if v \<and> bl \<and> bp then Success else SubstitutionFailure, e')"
    by blast
qed

inductive_simps requirementsHold_Nil: "requirementsHold a ps [] b"

lemma checkRequirements_complete:
  "requirementsHold a ps rs b \<Longrightarrow>
   \<exists>P bl bp.
     (\<forall>st. \<exists>st'. checkRequirements a ps rs st = Continue st' \<and>
        pendingReqs st' = P @ pendingReqs st \<and> valid st' = (valid st \<and> bl)) \<and>
     b = (bl \<and> bp) \<and> runsThrough a P bp"
proof (induction rule: requirementsHold.induct)
  case (NoRequirement parents)
  have "(\<forall>st. \<exists>st'. checkRequirements a parents [] st = Continue st' \<and>
        pendingReqs st' = [] @ pendingReqs st \<and> valid st' = (valid st \<and> True)) \<and>
     True = (True \<and> True) \<and> runsThrough a [] True"
    by (simp add: runsThrough_Nil)
  then show ?case
    by (intro exI [of _ "[]"] exI [of _ True])
next
  case (SubstitutionFails parents r rs b)
  then obtain P bl bp where
    pass: "\<And>st. \<exists>st'. checkRequirements a parents rs st = Continue st' \<and>
        pendingReqs st' = P @ pendingReqs st \<and> valid st' = (valid st \<and> bl)"
    and runs: "runsThrough a P bp"
    by blast
  have "\<exists>st'. checkRequirements a parents (r # rs) st = Continue st' \<and>
        pendingReqs st' = P @ pendingReqs st \<and> valid st' = (valid st \<and> False)" for st
    using pass [of "st\<lparr>valid := False\<rparr>"] SubstitutionFails.hyps(1)
    by (simp add: checkRequirement_alt)
  with runs have "(\<forall>st. \<exists>st'. checkRequirements a parents (r # rs) st = Continue st' \<and>
        pendingReqs st' = P @ pendingReqs st \<and> valid st' = (valid st \<and> False)) \<and>
     False = (False \<and> bp) \<and> runsThrough a P bp"
    by simp
  then show ?case
    by (intro exI [of _ P] exI [of _ False] exI [of _ bp])
next
  case (Vetoed parents r c rs b)
  then obtain P bl bp where
    pass: "\<And>st. \<exists>st'. checkRequirements a parents rs st = Continue st' \<and>
        pendingReqs st' = P @ pendingReqs st \<and> valid st' = (valid st \<and> bl)"
    and b: "b = (bl \<and> bp)" and runs: "runsThrough a P bp"
    by blast
  have "\<exists>st'. checkRequirements a parents (r # rs) st = Continue st' \<and>
        pendingReqs st' = P @ pendingReqs st \<and> valid st' = (valid st \<and> bl)" for st
    using pass [of st] Vetoed.hyps(1,2)
    by (simp add: checkRequirement_alt checkConcrete_def)
  with b runs have "(\<forall>st. \<exists>st'. checkRequirements a parents (r # rs) st = Continue st' \<and>
        pendingReqs st' = P @ pendingReqs st \<and> valid st' = (valid st \<and> bl)) \<and>
     b = (bl \<and> bp) \<and> runsThrough a P bp"
    by simp
  then show ?case
    by (intro exI [of _ P] exI [of _ bl] exI [of _ bp])
next
  case (Conforms parents r t p conf b1 rs b2)
  from Conforms.IH(1) obtain P1 bl1 bp1 where
    pass1: "\<And>st. \<exists>st'. checkRequirements a (parents @ [(t, p)])
               (getConditionalRequirements conf) st = Continue st' \<and>
        pendingReqs st' = P1 @ pendingReqs st \<and> valid st' = (valid st \<and> bl1)"
    and b1: "b1 = (bl1 \<and> bp1)" and runs1: "runsThrough a P1 bp1"
    by blast
  from Conforms.IH(2) obtain P2 bl2 bp2 where
    pass2: "\<And>st. \<exists>st'. checkRequirements a parents rs st = Continue st' \<and>
        pendingReqs st' = P2 @ pendingReqs st \<and> valid st' = (valid st \<and> bl2)"
    and b2: "b2 = (bl2 \<and> bp2)" and runs2: "runsThrough a P2 bp2"
    by blast
  define Q where "Q = (if getConditionalRequirements conf \<noteq> []
    then [\<lparr>Requirements = getConditionalRequirements conf, Parents = parents @ [(t, p)]\<rparr>] else [])"
  have runsQ: "runsThrough a Q b1"
  proof (cases "getConditionalRequirements conf = []")
    case True
    with Conforms.hyps(4) have "b1" by (simp add: requirementsHold_Nil)
    with True show ?thesis by (simp add: Q_def runsThrough_Nil)
  next
    case False
    with runsThrough_set [OF pass1 runs1] b1 show ?thesis by (simp add: Q_def)
  qed
  have step: "checkRequirement a parents r st = Continue (conformanceFound a parents r t p conf st)"
    for st
    using Conforms.hyps(1,2,3) by (simp add: checkRequirement_alt checkConcrete_def)
  have found: "pendingReqs (conformanceFound a parents r t p conf st) = Q @ pendingReqs st"
    "valid (conformanceFound a parents r t p conf st) = valid st" for st
    by (simp_all add: conformanceFound_def Q_def Let_def)
  have "\<exists>st'. checkRequirements a parents (r # rs) st = Continue st' \<and>
        pendingReqs st' = (P2 @ Q) @ pendingReqs st \<and> valid st' = (valid st \<and> bl2)" for st
    using pass2 [of "conformanceFound a parents r t p conf st"] step [of st] found [of st]
    by simp
  moreover have "(b1 \<and> b2) = (bl2 \<and> (bp2 \<and> b1))" using b2 by auto
  moreover have "runsThrough a (P2 @ Q) (bp2 \<and> b1)"
    using runs2 runsQ by (rule runsThrough_append)
  ultimately have "(\<forall>st. \<exists>st'. checkRequirements a parents (r # rs) st = Continue st' \<and>
        pendingReqs st' = (P2 @ Q) @ pendingReqs st \<and> valid st' = (valid st \<and> bl2)) \<and>
     (b1 \<and> b2) = (bl2 \<and> (bp2 \<and> b1)) \<and> runsThrough a (P2 @ Q) (bp2 \<and> b1)"
    by simp
  then show ?case
    by (intro exI [of _ "P2 @ Q"] exI [of _ bl2] exI [of _ "bp2 \<and> b1"])
next
  case (Satisfied parents r c rs b)
  then obtain P bl bp where
    pass: "\<And>st. \<exists>st'. checkRequirements a parents rs st = Continue st' \<and>
        pendingReqs st' = P @ pendingReqs st \<and> valid st' = (valid st \<and> bl)"
    and b: "b = (bl \<and> bp)" and runs: "runsThrough a P bp"
    by blast
  have "checkConcrete a parents r c st = Continue st" for st
    using Satisfied.hyps(2,3,4) by (cases c) (simp_all add: checkConcrete_def)
  then have "\<exists>st'. checkRequirements a parents (r # rs) st = Continue st' \<and>
        pendingReqs st' = P @ pendingReqs st \<and> valid st' = (valid st \<and> bl)" for st
    using pass [of st] Satisfied.hyps(1)
    by (simp add: checkRequirement_alt)
  with b runs have "(\<forall>st. \<exists>st'. checkRequirements a parents (r # rs) st = Continue st' \<and>
        pendingReqs st' = P @ pendingReqs st \<and> valid st' = (valid st \<and> bl)) \<and>
     b = (bl \<and> bp) \<and> runsThrough a P bp"
    by simp
  then show ?case
    by (intro exI [of _ P] exI [of _ bl] exI [of _ bp])
qed

text \<open>The work-list loop returns \<^verbatim>\<open>Success\<close> or \<^verbatim>\<open>SubstitutionFailure\<close> exactly when the
  recursive reading holds, with the matching flag.\<close>

lemma checkGenericArguments_iff:
  "(\<exists>n evs. checkGenericArguments n a reqs =
       Some (if b then Success else SubstitutionFailure, evs)) \<longleftrightarrow>
   requirementsHold a [] reqs b"
proof
  assume "\<exists>n evs. checkGenericArguments n a reqs =
       Some (if b then Success else SubstitutionFailure, evs)"
  then obtain n evs where
    run: "checkPending n a (initialState reqs) =
       Some (if b then Success else SubstitutionFailure, evs)"
    unfolding checkGenericArguments_def by blast
  have "(if b then Success else SubstitutionFailure) \<noteq> Failure" by simp
  from checkPending_sound [OF run this] obtain b' where
    h: "pendingHold a (pendingReqs (initialState reqs)) b'"
    and r: "(if b then Success else SubstitutionFailure) =
        (if valid (initialState reqs) \<and> b' then Success else SubstitutionFailure)"
    by blast
  from r have "b' = b" by (simp add: initialState_def split: if_splits)
  with h show "requirementsHold a [] reqs b"
    by (simp add: initialState_def pendingHold_single)
next
  assume "requirementsHold a [] reqs b"
  from checkRequirements_complete [OF this] obtain P bl bp where
    pass: "\<And>st. \<exists>st'. checkRequirements a [] reqs st = Continue st' \<and>
        pendingReqs st' = P @ pendingReqs st \<and> valid st' = (valid st \<and> bl)"
    and b: "b = (bl \<and> bp)" and runs: "runsThrough a P bp"
    by blast
  from runsThrough_set [OF pass runs] b
  have "runsThrough a [\<lparr>Requirements = reqs, Parents = []\<rparr>] b" by simp
  then obtain n e' where
    "checkPending n a \<lparr>valid = True, pendingReqs = [\<lparr>Requirements = reqs, Parents = []\<rparr>],
       events = []\<rparr> = Some (if True \<and> b then Success else SubstitutionFailure, e')"
    unfolding runsThrough_def by blast
  then have "checkGenericArguments n a reqs =
       Some (if b then Success else SubstitutionFailure, e')"
    by (simp add: checkGenericArguments_def initialState_def)
  then show "\<exists>n evs. checkGenericArguments n a reqs =
       Some (if b then Success else SubstitutionFailure, evs)"
    by (intro exI)
qed

subsection \<open>Failures and nested sets\<close>

lemma checkRequirements_append:
  "checkRequirements a ps (xs @ ys) st =
     (case checkRequirements a ps xs st of
        Return r s \<Rightarrow> Return r s
      | Continue s \<Rightarrow> checkRequirements a ps ys s)"
  by (induction xs arbitrary: st) (auto split: step.splits)

lemma checkRequirement_violated:
  assumes "concreteRequirement a ps r = Some c" and "\<not> vetoed a c" and "\<not> holds a c"
  shows "checkRequirement a ps r st =
     Return Failure
       (st\<lparr>events := events st @
          (if ps = [] \<and> getKind c = Conformance then [] else failureEvents a ps r c)\<rparr>)"
  using assms by (cases c) (simp_all add: checkRequirement_alt checkConcrete_def)

lemma checkPending_returns:
  assumes "checkRequirements a ps pre (st\<lparr>pendingReqs := others\<rparr>) = Continue st'"
    and "checkRequirement a ps r st' = Return res st''"
  shows "checkPending (Suc n) a
           (st\<lparr>pendingReqs := \<lparr>Requirements = pre @ r # rest, Parents = ps\<rparr> # others\<rparr>) =
         Some (res, events st'')"
  using assms by (simp add: checkRequirements_append)

lemma hasError_concrete:
  "concreteRequirement a ps r = Some c \<Longrightarrow>
     \<not> hasError (getFirstType c) \<and> (\<forall>s. getSecondType c = Some s \<longrightarrow> \<not> hasError s)"
  by (auto simp: concreteRequirement_def Let_def split: option.splits if_splits)

lemma intoContext_substType: "intoContext (a\<lparr>substType := f\<rparr>) = intoContext a"
  by (rule ext) (simp add: intoContext_def)

lemma gatherBindings_substType:
  "gatherBindings (a\<lparr>substType := f\<rparr>) known gps result = gatherBindings a known gps result"
  by (induction gps arbitrary: result) (simp_all add: Let_def split: option.split)

lemma failureEvents_substType:
  "failureEvents (a\<lparr>substType := f\<rparr>) ps r c = failureEvents a ps r c"
  by (simp add: failureEvents_def gatherGenericParamBindingsText_def gatherBindings_substType)

lemma concreteRequirement_nested:
  "ps \<noteq> [] \<Longrightarrow> concreteRequirement (a\<lparr>substType := f\<rparr>) ps r = concreteRequirement a ps r"
  by (simp add: concreteRequirement_def intoContext_substType)

lemma checkRequirement_nested:
  assumes "ps \<noteq> []"
  shows "checkRequirement (a\<lparr>substType := f\<rparr>) ps r st = checkRequirement a ps r st"
proof -
  have "checkConcrete (a\<lparr>substType := f\<rparr>) ps r c st = checkConcrete a ps r c st" for c
    by (cases c)
      (simp_all add: checkConcrete_def vetoed_def conformanceFound_def failureEvents_substType
        split: option.split)
  then show ?thesis
    using assms by (simp add: checkRequirement_alt concreteRequirement_nested split: option.split)
qed


lemma checkRequirements_nested:
  "ps \<noteq> [] \<Longrightarrow> checkRequirements (a\<lparr>substType := f\<rparr>) ps rs st = checkRequirements a ps rs st"
  by (induction rs arbitrary: st) (simp_all add: checkRequirement_nested split: step.split)

lemma concreteRequirement_top:
  "concreteRequirement a [] r = Some c \<Longrightarrow>
   \<exists>t0. substType a (getFirstType r) = Some t0 \<and> getFirstType c = intoContext a t0"
  by (cases r) (auto simp: concreteRequirement_def Let_def split: option.splits if_splits)

subsection \<open>Evaluating the examples\<close>

lemmas example_defs = exampleArgs_def exampleConformances_def tyT_def paramT_def tyInt_def
  tyOpaque_def tyArray_def vetoAll_def diagnoseAll_def

lemmas run_defs = checkGenericArguments_def initialState_def checkRequirement_def
  requirementFailed_def intoContext_def Let_def isValid_def gatherGenericParamBindingsText_def

inductive_cases requirementsHold_ConsE: "requirementsHold a ps (r # rs) b"

section \<open>Results on the requirement checker\<close>

text \<open>
  C1 (amended). When the requirements before \<^verbatim>\<open>r\<close> in the current set pass and \<^verbatim>\<open>r\<close> is
  violated, the check returns \<^verbatim>\<open>Failure\<close> at once, whatever follows \<^verbatim>\<open>r\<close> in its set
  (\<^verbatim>\<open>rest\<close>), whatever is still on the work-list (\<^verbatim>\<open>others\<close>) and whatever fuel is
  left: the result is that of the run cut off after \<^verbatim>\<open>r\<close>. A failed top-level
  conformance adds no event; any other failure adds only the diagnostics of \<^verbatim>\<open>r\<close>
  itself. No later requirement is evaluated.
\<close>

theorem failure_returns_at_once:
  assumes "checkRequirements a ps pre (st\<lparr>pendingReqs := others\<rparr>) = Continue st'"
    and "concreteRequirement a ps r = Some c"
    and "\<not> vetoed a c"
    and "\<not> holds a c"
  shows "checkPending (Suc n) a
           (st\<lparr>pendingReqs := \<lparr>Requirements = pre @ r # rest, Parents = ps\<rparr> # others\<rparr>) =
         Some (Failure,
               events st' @
               (if ps = [] \<and> getKind c = Conformance then [] else failureEvents a ps r c)) \<and>
         checkPending (Suc n) a
           (st\<lparr>pendingReqs := \<lparr>Requirements = pre @ r # rest, Parents = ps\<rparr> # others\<rparr>) =
         checkPending (Suc 0) a
           (st\<lparr>pendingReqs := [\<lparr>Requirements = pre @ [r], Parents = ps\<rparr>]\<rparr>)"
proof -
  let ?evs = "if ps = [] \<and> getKind c = Conformance then [] else failureEvents a ps r c"
  have step: "checkRequirement a ps r s = Return Failure (s\<lparr>events := events s @ ?evs\<rparr>)" for s
    using assms(2,3,4) by (rule checkRequirement_violated)
  have full: "checkPending (Suc n) a
           (st\<lparr>pendingReqs := \<lparr>Requirements = pre @ r # rest, Parents = ps\<rparr> # others\<rparr>) =
         Some (Failure, events st' @ ?evs)"
    using checkPending_returns [OF assms(1) step [of st'], of n rest] by simp
  from checkRequirements_frame [OF assms(1)] obtain P where
    "checkRequirements a ps pre (st\<lparr>pendingReqs := others, pendingReqs := []\<rparr>) =
       Continue (st'\<lparr>pendingReqs := P @ []\<rparr>)"
    by blast
  then have cut: "checkRequirements a ps pre (st\<lparr>pendingReqs := []\<rparr>) =
       Continue (st'\<lparr>pendingReqs := P\<rparr>)"
    by simp
  have "checkPending (Suc 0) a
           (st\<lparr>pendingReqs := [\<lparr>Requirements = pre @ [r], Parents = ps\<rparr>]\<rparr>) =
         Some (Failure, events st' @ ?evs)"
    using checkPending_returns [OF cut step [of "st'\<lparr>pendingReqs := P\<rparr>"], of 0 "[]"] by simp
  with full show ?thesis by simp
qed


theorem failure_returns_at_once_witness:
  "checkRequirements (exampleArgs None (Some 1) tyInt) [(tyArray (tyArray tyInt), ''Codable'')] []
     ((initialState [])\<lparr>pendingReqs :=
        [\<lparr>Requirements = [SameTypeReq tyInt tyOpaque], Parents = [(tyArray tyInt, ''Codable'')]\<rparr>]\<rparr>) =
   Continue ((initialState [])\<lparr>pendingReqs :=
        [\<lparr>Requirements = [SameTypeReq tyInt tyOpaque], Parents = [(tyArray tyInt, ''Codable'')]\<rparr>]\<rparr>) \<and>
   concreteRequirement (exampleArgs None (Some 1) tyInt) [(tyArray (tyArray tyInt), ''Codable'')]
     (SameTypeReq (tyArray tyInt) tyOpaque) = Some (SameTypeReq (tyArray tyInt) tyOpaque) \<and>
   \<not> vetoed (exampleArgs None (Some 1) tyInt) (SameTypeReq (tyArray tyInt) tyOpaque) \<and>
   \<not> holds (exampleArgs None (Some 1) tyInt) (SameTypeReq (tyArray tyInt) tyOpaque) \<and>
   checkPending (Suc 5) (exampleArgs None (Some 1) tyInt)
     ((initialState [])\<lparr>pendingReqs :=
        \<lparr>Requirements = [] @ SameTypeReq (tyArray tyInt) tyOpaque # [SameTypeReq (tyArray tyInt) tyInt],
         Parents = [(tyArray (tyArray tyInt), ''Codable'')]\<rparr> #
        [\<lparr>Requirements = [SameTypeReq tyInt tyOpaque], Parents = [(tyArray tyInt, ''Codable'')]\<rparr>]\<rparr>) =
   Some (Failure,
     [Diagnose (Some 1) types_not_equal (NominalType ''Owner'' [tyT]) (tyArray tyInt) (Some tyOpaque),
      DiagnoseNote (Some 1) types_not_equal_requirement (tyArray tyInt) (Some tyOpaque) [],
      DiagnoseConformanceStack (Some 1) [(tyArray (tyArray tyInt), ''Codable'')]]) \<and>
   checkPending (Suc 0) (exampleArgs None (Some 1) tyInt)
     ((initialState [])\<lparr>pendingReqs :=
        [\<lparr>Requirements = [] @ [SameTypeReq (tyArray tyInt) tyOpaque],
          Parents = [(tyArray (tyArray tyInt), ''Codable'')]\<rparr>]\<rparr>) =
   Some (Failure,
     [Diagnose (Some 1) types_not_equal (NominalType ''Owner'' [tyT]) (tyArray tyInt) (Some tyOpaque),
      DiagnoseNote (Some 1) types_not_equal_requirement (tyArray tyInt) (Some tyOpaque) [],
      DiagnoseConformanceStack (Some 1) [(tyArray (tyArray tyInt), ''Codable'')]])"
proof -
  let ?a = "exampleArgs None (Some 1) tyInt"
  let ?ps = "[(tyArray (tyArray tyInt), ''Codable'')]"
  let ?r = "SameTypeReq (tyArray tyInt) tyOpaque"
  let ?st = "initialState []"
  let ?others = "[\<lparr>Requirements = [SameTypeReq tyInt tyOpaque], Parents = [(tyArray tyInt, ''Codable'')]\<rparr>]"
  have pre: "checkRequirements ?a ?ps [] (?st\<lparr>pendingReqs := ?others\<rparr>) =
      Continue (?st\<lparr>pendingReqs := ?others\<rparr>)"
    by simp
  have c: "concreteRequirement ?a ?ps ?r = Some ?r"
    by (simp add: concreteRequirement_def intoContext_def example_defs)
  have v: "\<not> vetoed ?a ?r"
    by (simp add: vetoed_def example_defs)
  have h: "\<not> holds ?a ?r"
    by (simp add: example_defs)
  have evs: "events (?st\<lparr>pendingReqs := ?others\<rparr>) @
        (if ?ps = [] \<and> getKind ?r = Conformance then [] else failureEvents ?a ?ps ?r ?r) =
     [Diagnose (Some 1) types_not_equal (NominalType ''Owner'' [tyT]) (tyArray tyInt) (Some tyOpaque),
      DiagnoseNote (Some 1) types_not_equal_requirement (tyArray tyInt) (Some tyOpaque) [],
      DiagnoseConformanceStack (Some 1) [(tyArray (tyArray tyInt), ''Codable'')]]"
    by (simp add: failureEvents_def initialState_def isValid_def
        gatherGenericParamBindingsText_def example_defs)
  note inst = failure_returns_at_once [OF pre c v h, of 5 "[SameTypeReq (tyArray tyInt) tyInt]"]
  let ?res = "Some (Failure,
       [Diagnose (Some 1) types_not_equal (NominalType ''Owner'' [tyT]) (tyArray tyInt) (Some tyOpaque),
        DiagnoseNote (Some 1) types_not_equal_requirement (tyArray tyInt) (Some tyOpaque) [],
        DiagnoseConformanceStack (Some 1) [(tyArray (tyArray tyInt), ''Codable'')]])"
  from inst [unfolded evs] have
    r1: "checkPending (Suc 5) ?a
       (?st\<lparr>pendingReqs :=
          \<lparr>Requirements = [] @ ?r # [SameTypeReq (tyArray tyInt) tyInt], Parents = ?ps\<rparr> #
          ?others\<rparr>) = ?res"
    by (rule conjunct1)
  from inst [unfolded evs] have
    r2: "checkPending (Suc 0) ?a
       (?st\<lparr>pendingReqs := [\<lparr>Requirements = [] @ [?r], Parents = ?ps\<rparr>]\<rparr>) = ?res"
    by (elim conjE) (erule subst, assumption)
  from pre c v h r1 r2 show ?thesis by (intro conjI)
qed

text \<open>
  C1 as stated fails: with \<^verbatim>\<open>T := Array<Array<Int>>\<close> the conformance to \<^verbatim>\<open>Codable\<close>
  has two conditional requirements, \<^verbatim>\<open>Array<Int> == Opaque\<close> and \<^verbatim>\<open>Array<Int> == Int\<close>,
  both violated. The check returns \<^verbatim>\<open>Failure\<close> with the diagnostics of the first only;
  the second, also violated, is never evaluated and nothing is collected for it.
\<close>

theorem later_requirement_not_evaluated:
  "checkGenericArguments 3 (exampleArgs None (Some 1) (tyArray (tyArray tyInt)))
     [ConformanceReq tyT ''Codable''] =
   Some (Failure,
     [Diagnose (Some 1) types_not_equal (NominalType ''Owner'' [tyT]) (tyArray tyInt) (Some tyOpaque),
      DiagnoseNote (Some 1) types_not_equal_requirement (tyArray tyInt) (Some tyOpaque) [],
      DiagnoseConformanceStack (Some 1) [(tyArray (tyArray tyInt), ''Codable'')]]) \<and>
   violated (exampleArgs None (Some 1) (tyArray (tyArray tyInt)))
     [(tyArray (tyArray tyInt), ''Codable'')] (SameTypeReq (tyArray tyInt) tyInt)"
proof
  show "checkGenericArguments 3 (exampleArgs None (Some 1) (tyArray (tyArray tyInt)))
     [ConformanceReq tyT ''Codable''] =
   Some (Failure,
     [Diagnose (Some 1) types_not_equal (NominalType ''Owner'' [tyT]) (tyArray tyInt) (Some tyOpaque),
      DiagnoseNote (Some 1) types_not_equal_requirement (tyArray tyInt) (Some tyOpaque) [],
      DiagnoseConformanceStack (Some 1) [(tyArray (tyArray tyInt), ''Codable'')]])"
    by (simp add: run_defs example_defs numeral_3_eq_3)
next
  show "violated (exampleArgs None (Some 1) (tyArray (tyArray tyInt)))
     [(tyArray (tyArray tyInt), ''Codable'')] (SameTypeReq (tyArray tyInt) tyInt)"
    by (simp add: violated_def concreteRequirement_def vetoed_def intoContext_def example_defs)
qed

text \<open>
  C2 (amended). A requirement with no concrete types (its substitution produces no
  type, or a side carries the error type) does not stop the check: the inner loop
  clears \<^verbatim>\<open>valid\<close> and goes on with the remaining requirements. The call returns
  \<^verbatim>\<open>Success\<close> exactly when every requirement that the listener does not veto, and
  recursively every conditional requirement of the conformances found, substitutes and
  checks successfully; it returns \<^verbatim>\<open>SubstitutionFailure\<close> exactly when none of them is
  violated and at least one substitution failed. A requirement the listener vetoes is
  skipped, whether it holds or not.
\<close>

theorem substitution_failure_and_results:
  "(concreteRequirement a ps r = None \<longrightarrow>
      checkRequirements a ps (r # rest) st = checkRequirements a ps rest (st\<lparr>valid := False\<rparr>)) \<and>
   ((\<exists>n evs. checkGenericArguments n a reqs = Some (Success, evs)) \<longleftrightarrow>
      requirementsHold a [] reqs True) \<and>
   ((\<exists>n evs. checkGenericArguments n a reqs = Some (SubstitutionFailure, evs)) \<longleftrightarrow>
      requirementsHold a [] reqs False)"
proof (intro conjI impI)
  assume "concreteRequirement a ps r = None"
  then show "checkRequirements a ps (r # rest) st = checkRequirements a ps rest (st\<lparr>valid := False\<rparr>)"
    by (simp add: checkRequirement_alt)
next
  show "(\<exists>n evs. checkGenericArguments n a reqs = Some (Success, evs)) \<longleftrightarrow>
      requirementsHold a [] reqs True"
    using checkGenericArguments_iff [of a reqs True] by simp
next
  show "(\<exists>n evs. checkGenericArguments n a reqs = Some (SubstitutionFailure, evs)) \<longleftrightarrow>
      requirementsHold a [] reqs False"
    using checkGenericArguments_iff [of a reqs False] by simp
qed

theorem substitution_failure_and_results_witness:
  "concreteRequirement (exampleArgs None (Some 1) (tyArray tyInt)) []
     (ConformanceReq (GenericTypeParamType (GenericParam 0 1)) ''Equatable'') = None \<and>
   checkRequirements (exampleArgs None (Some 1) (tyArray tyInt)) []
     [ConformanceReq (GenericTypeParamType (GenericParam 0 1)) ''Equatable'',
      ConformanceReq tyT ''Equatable''] (initialState []) =
   checkRequirements (exampleArgs None (Some 1) (tyArray tyInt)) []
     [ConformanceReq tyT ''Equatable''] ((initialState [])\<lparr>valid := False\<rparr>) \<and>
   checkGenericArguments 3 (exampleArgs None (Some 1) (tyArray tyInt))
     [ConformanceReq tyT ''Equatable''] = Some (Success, []) \<and>
   requirementsHold (exampleArgs None (Some 1) (tyArray tyInt)) []
     [ConformanceReq tyT ''Equatable''] True \<and>
   checkGenericArguments 3 (exampleArgs None (Some 1) (tyArray tyInt))
     [ConformanceReq (GenericTypeParamType (GenericParam 0 1)) ''Equatable'',
      ConformanceReq tyT ''Equatable''] = Some (SubstitutionFailure, []) \<and>
   requirementsHold (exampleArgs None (Some 1) (tyArray tyInt)) []
     [ConformanceReq (GenericTypeParamType (GenericParam 0 1)) ''Equatable'',
      ConformanceReq tyT ''Equatable''] False"
proof -
  let ?a = "exampleArgs None (Some 1) (tyArray tyInt)"
  let ?u = "ConformanceReq (GenericTypeParamType (GenericParam 0 1)) ''Equatable''"
  let ?r = "ConformanceReq tyT ''Equatable''"
  have none: "concreteRequirement ?a [] ?u = None"
    by (simp add: concreteRequirement_def example_defs)
  have ok: "checkGenericArguments 3 ?a [?r] = Some (Success, [])"
    by (simp add: run_defs example_defs numeral_3_eq_3)
  have sf: "checkGenericArguments 3 ?a [?u, ?r] = Some (SubstitutionFailure, [])"
    by (simp add: run_defs example_defs numeral_3_eq_3)
  note thm1 = substitution_failure_and_results [of ?a "[]" ?u "[?r]" "initialState []" "[?r]"]
  note thm2 = substitution_failure_and_results [of ?a "[]" ?u "[?r]" "initialState []" "[?u, ?r]"]
  from thm1 none have step: "checkRequirements ?a [] [?u, ?r] (initialState []) =
      checkRequirements ?a [] [?r] ((initialState [])\<lparr>valid := False\<rparr>)"
    by blast
  from thm1 ok have h1: "requirementsHold ?a [] [?r] True" by blast
  from thm2 sf have h2: "requirementsHold ?a [] [?u, ?r] False" by blast
  from none step ok h1 sf h2 show ?thesis by blast
qed

text \<open>C2 as stated fails when a listener vetoes a requirement that does not hold: the check
  returns \<^verbatim>\<open>Success\<close> although, read without the listener, \<^verbatim>\<open>T == Opaque\<close> with
  \<^verbatim>\<open>T := Int\<close> does not check successfully.\<close>

theorem veto_counterexample:
  "checkGenericArguments 2 (exampleArgs (Some vetoAll) (Some 1) tyInt) [SameTypeReq tyT tyOpaque] =
     Some (Success, []) \<and>
   \<not> requirementsHold (exampleArgs None (Some 1) tyInt) [] [SameTypeReq tyT tyOpaque] True"
proof
  show "checkGenericArguments 2 (exampleArgs (Some vetoAll) (Some 1) tyInt)
          [SameTypeReq tyT tyOpaque] = Some (Success, [])"
    by (simp add: run_defs example_defs numeral_2_eq_2)
next
  let ?a = "exampleArgs None (Some 1) tyInt"
  have c: "concreteRequirement ?a [] (SameTypeReq tyT tyOpaque) = Some (SameTypeReq tyInt tyOpaque)"
    by (simp add: concreteRequirement_def intoContext_def example_defs)
  have v: "\<not> vetoed ?a (SameTypeReq tyInt tyOpaque)"
    by (simp add: vetoed_def example_defs)
  have h: "\<not> holds ?a (SameTypeReq tyInt tyOpaque)"
    by (simp add: example_defs)
  show "\<not> requirementsHold ?a [] [SameTypeReq tyT tyOpaque] True"
  proof
    assume "requirementsHold ?a [] [SameTypeReq tyT tyOpaque] True"
    then show False
      using c v h by (auto elim!: requirementsHold_ConsE)
  qed
qed

text \<open>
  C3. When a conformance requirement with concrete subject \<^verbatim>\<open>t\<close> (at the top level: the
  substituted subject, mapped into the context where it still has type parameters) is
  satisfied by a conformance that carries conditional requirements, the step pushes
  one set onto the work-list, with those requirements and the current parent chain
  extended by \<^verbatim>\<open>(t, protocol)\<close>. The requirements of a set with a non-empty parent chain
  are checked without \<^verbatim>\<open>Requirement::subst\<close>: the substitution of types plays no part
  in the inner loop over such a set. (The bindings text of a failure note is still
  rendered with the \<^verbatim>\<open>substitutions\<close> function.)
\<close>

theorem conditional_requirements_pushed:
  "(concreteRequirement a ps r = Some (ConformanceReq t p) \<and> \<not> vetoed a (ConformanceReq t p) \<and>
    conformsToProtocol a t p = Some conf \<and> getConditionalRequirements conf \<noteq> [] \<longrightarrow>
      (\<exists>st'. checkRequirement a ps r st = Continue st' \<and>
         pendingReqs st' =
           \<lparr>Requirements = getConditionalRequirements conf, Parents = ps @ [(t, p)]\<rparr>
           # pendingReqs st \<and> valid st' = valid st)) \<and>
   (concreteRequirement a [] r = Some (ConformanceReq t p) \<longrightarrow>
      (\<exists>t0. substType a (getFirstType r) = Some t0 \<and> t = intoContext a t0)) \<and>
   (ps \<noteq> [] \<longrightarrow>
      concreteRequirement a ps r = concreteRequirement (a\<lparr>substType := f\<rparr>) ps r \<and>
      checkRequirements (a\<lparr>substType := f\<rparr>) ps rs st = checkRequirements a ps rs st)"
proof (intro conjI impI)
  assume h: "concreteRequirement a ps r = Some (ConformanceReq t p) \<and>
    \<not> vetoed a (ConformanceReq t p) \<and>
    conformsToProtocol a t p = Some conf \<and> getConditionalRequirements conf \<noteq> []"
  then have "checkRequirement a ps r st = Continue (conformanceFound a ps r t p conf st)"
    by (simp add: checkRequirement_alt checkConcrete_def)
  moreover have "pendingReqs (conformanceFound a ps r t p conf st) =
      \<lparr>Requirements = getConditionalRequirements conf, Parents = ps @ [(t, p)]\<rparr> # pendingReqs st"
    "valid (conformanceFound a ps r t p conf st) = valid st"
    using h by (simp_all add: conformanceFound_def Let_def)
  ultimately show "\<exists>st'. checkRequirement a ps r st = Continue st' \<and>
         pendingReqs st' =
           \<lparr>Requirements = getConditionalRequirements conf, Parents = ps @ [(t, p)]\<rparr>
           # pendingReqs st \<and> valid st' = valid st"
    by simp
next
  assume "concreteRequirement a [] r = Some (ConformanceReq t p)"
  from concreteRequirement_top [OF this]
  show "\<exists>t0. substType a (getFirstType r) = Some t0 \<and> t = intoContext a t0" by simp
next
  assume "ps \<noteq> []"
  then show "concreteRequirement a ps r = concreteRequirement (a\<lparr>substType := f\<rparr>) ps r"
    by (simp add: concreteRequirement_nested)
next
  assume "ps \<noteq> []"
  then show "checkRequirements (a\<lparr>substType := f\<rparr>) ps rs st = checkRequirements a ps rs st"
    by (rule checkRequirements_nested)
qed

theorem conditional_requirements_pushed_witness:
  "concreteRequirement (exampleArgs None (Some 1) (tyArray tyInt)) [] (ConformanceReq tyT ''Equatable'') =
     Some (ConformanceReq (tyArray tyInt) ''Equatable'') \<and>
   \<not> vetoed (exampleArgs None (Some 1) (tyArray tyInt)) (ConformanceReq (tyArray tyInt) ''Equatable'') \<and>
   conformsToProtocol (exampleArgs None (Some 1) (tyArray tyInt)) (tyArray tyInt) ''Equatable'' =
     Some (ProtocolConformanceRef ''Array: Equatable'' [ConformanceReq tyInt ''Equatable'']) \<and>
   (\<exists>st'. checkRequirement (exampleArgs None (Some 1) (tyArray tyInt)) []
            (ConformanceReq tyT ''Equatable'') (initialState []) = Continue st' \<and>
     pendingReqs st' =
       \<lparr>Requirements = [ConformanceReq tyInt ''Equatable''],
        Parents = [] @ [(tyArray tyInt, ''Equatable'')]\<rparr> # pendingReqs (initialState []) \<and>
     valid st' = valid (initialState [])) \<and>
   (\<exists>t0. substType (exampleArgs None (Some 1) (tyArray tyInt)) (getFirstType (ConformanceReq tyT ''Equatable''))
            = Some t0 \<and>
         tyArray tyInt = intoContext (exampleArgs None (Some 1) (tyArray tyInt)) t0) \<and>
   checkRequirements ((exampleArgs None (Some 1) (tyArray tyInt))\<lparr>substType := (\<lambda>t. None)\<rparr>)
     [(tyArray tyInt, ''Equatable'')] [ConformanceReq tyInt ''Equatable''] (initialState []) =
   checkRequirements (exampleArgs None (Some 1) (tyArray tyInt))
     [(tyArray tyInt, ''Equatable'')] [ConformanceReq tyInt ''Equatable''] (initialState [])"
proof -
  let ?a = "exampleArgs None (Some 1) (tyArray tyInt)"
  let ?r = "ConformanceReq tyT ''Equatable''"
  let ?conf = "ProtocolConformanceRef ''Array: Equatable'' [ConformanceReq tyInt ''Equatable'']"
  have c: "concreteRequirement ?a [] ?r = Some (ConformanceReq (tyArray tyInt) ''Equatable'')"
    by (simp add: concreteRequirement_def intoContext_def example_defs)
  have v: "\<not> vetoed ?a (ConformanceReq (tyArray tyInt) ''Equatable'')"
    by (simp add: vetoed_def example_defs)
  have f: "conformsToProtocol ?a (tyArray tyInt) ''Equatable'' = Some ?conf"
    by (simp add: example_defs)
  have n: "getConditionalRequirements ?conf \<noteq> []" by simp
  have ne: "[(tyArray tyInt, ''Equatable'')] \<noteq> []" by simp
  note inst = conditional_requirements_pushed [of ?a "[]" ?r "tyArray tyInt" "''Equatable''" ?conf
      "initialState []"]
  note inst2 = conditional_requirements_pushed [of ?a "[(tyArray tyInt, ''Equatable'')]" ?r
      "tyArray tyInt" "''Equatable''" ?conf "initialState []" "\<lambda>t. None"
      "[ConformanceReq tyInt ''Equatable'']"]
  from inst c v f n have p1: "\<exists>st'. checkRequirement ?a [] ?r (initialState []) = Continue st' \<and>
     pendingReqs st' =
       \<lparr>Requirements = [ConformanceReq tyInt ''Equatable''],
        Parents = [] @ [(tyArray tyInt, ''Equatable'')]\<rparr> # pendingReqs (initialState []) \<and>
     valid st' = valid (initialState [])"
    by simp
  from inst c have p2: "\<exists>t0. substType ?a (getFirstType ?r) = Some t0 \<and>
         tyArray tyInt = intoContext ?a t0"
    by blast
  from inst2 ne have p3: "checkRequirements (?a\<lparr>substType := (\<lambda>t. None)\<rparr>)
     [(tyArray tyInt, ''Equatable'')] [ConformanceReq tyInt ''Equatable''] (initialState []) =
   checkRequirements ?a
     [(tyArray tyInt, ''Equatable'')] [ConformanceReq tyInt ''Equatable''] (initialState [])"
    by blast
  from c v f p1 p2 p3 show ?thesis by (intro conjI)
qed

text \<open>
  C4 (amended). When a requirement of a set with a non-empty parent chain is violated
  (the requirements before it in the set having passed), the check returns
  \<^verbatim>\<open>Failure\<close>. If no listener takes the diagnosis over and the location is valid, it
  emits the primary diagnostic with the concrete types of that innermost requirement,
  the note with its raw types, and the conformance stack with the whole parent chain;
  if a listener's \<^verbatim>\<open>diagnoseUnsatisfiedRequirement\<close> returns true, or the location is
  invalid, it emits nothing.
\<close>

theorem conditional_failure_diagnosed:
  assumes "ps \<noteq> []"
    and "checkRequirements a ps pre (st\<lparr>pendingReqs := others\<rparr>) = Continue st'"
    and "concreteRequirement a ps r = Some c"
    and "\<not> vetoed a c"
    and "\<not> holds a c"
  shows "checkPending (Suc n) a
           (st\<lparr>pendingReqs := \<lparr>Requirements = pre @ r # rest, Parents = ps\<rparr> # others\<rparr>) =
         Some (Failure,
           events st' @
           (if (case listenerOf a of
                  None \<Rightarrow> False
                | Some l \<Rightarrow>
                    diagnoseUnsatisfiedRequirement l r (getFirstType c) (getSecondType c) ps)
            then []
            else if isValid (loc a) then
              [Diagnose (loc a) (diagnosticOf c) (owner a) (getFirstType c) (getSecondType c),
               DiagnoseNote (noteLoc a) (diagnosticNoteOf c) (getFirstType r) (getSecondType r)
                 (if genericParams a \<noteq> []
                  then gatherGenericParamBindingsText a
                         [Some (getFirstType r), getSecondType r] (genericParams a)
                  else []),
               DiagnoseConformanceStack (noteLoc a) ps]
            else [])) \<and>
         1 \<le> length ps"
proof -
  have step: "checkRequirement a ps r st' =
      Return Failure (st'\<lparr>events := events st' @ failureEvents a ps r c\<rparr>)"
    using checkRequirement_violated [OF assms(3,4,5), of st'] assms(1) by simp
  have "checkPending (Suc n) a
           (st\<lparr>pendingReqs := \<lparr>Requirements = pre @ r # rest, Parents = ps\<rparr> # others\<rparr>) =
         Some (Failure, events st' @ failureEvents a ps r c)"
    using checkPending_returns [OF assms(2) step, of n rest] by simp
  moreover have "1 \<le> length ps" using assms(1) by (cases ps) simp_all
  ultimately show ?thesis unfolding failureEvents_def by (intro conjI)
qed

theorem conditional_failure_diagnosed_witness:
  "[(tyArray tyInt, ''Codable'')] \<noteq> [] \<and>
   checkRequirements (exampleArgs None (Some 1) tyInt) [(tyArray tyInt, ''Codable'')] []
     ((initialState [])\<lparr>pendingReqs := []\<rparr>) = Continue ((initialState [])\<lparr>pendingReqs := []\<rparr>) \<and>
   concreteRequirement (exampleArgs None (Some 1) tyInt) [(tyArray tyInt, ''Codable'')]
     (SameTypeReq tyInt tyOpaque) = Some (SameTypeReq tyInt tyOpaque) \<and>
   \<not> vetoed (exampleArgs None (Some 1) tyInt) (SameTypeReq tyInt tyOpaque) \<and>
   \<not> holds (exampleArgs None (Some 1) tyInt) (SameTypeReq tyInt tyOpaque) \<and>
   checkPending (Suc 0) (exampleArgs None (Some 1) tyInt)
     ((initialState [])\<lparr>pendingReqs :=
        \<lparr>Requirements = [] @ SameTypeReq tyInt tyOpaque # [SameTypeReq tyInt tyInt],
         Parents = [(tyArray tyInt, ''Codable'')]\<rparr> # []\<rparr>) =
   Some (Failure,
     [Diagnose (Some 1) types_not_equal (NominalType ''Owner'' [tyT]) tyInt (Some tyOpaque),
      DiagnoseNote (Some 1) types_not_equal_requirement tyInt (Some tyOpaque) [],
      DiagnoseConformanceStack (Some 1) [(tyArray tyInt, ''Codable'')]]) \<and>
   1 \<le> length [(tyArray tyInt, ''Codable'')]"
proof -
  let ?a = "exampleArgs None (Some 1) tyInt"
  let ?ps = "[(tyArray tyInt, ''Codable'')]"
  let ?r = "SameTypeReq tyInt tyOpaque"
  let ?st = "initialState []"
  have ne: "?ps \<noteq> []" by simp
  have pre: "checkRequirements ?a ?ps [] (?st\<lparr>pendingReqs := []\<rparr>) = Continue (?st\<lparr>pendingReqs := []\<rparr>)"
    by simp
  have c: "concreteRequirement ?a ?ps ?r = Some ?r"
    by (simp add: concreteRequirement_def intoContext_def example_defs)
  have v: "\<not> vetoed ?a ?r"
    by (simp add: vetoed_def example_defs)
  have h: "\<not> holds ?a ?r"
    by (simp add: example_defs)
  have evs: "events (?st\<lparr>pendingReqs := []\<rparr>) @
           (if (case listenerOf ?a of
                  None \<Rightarrow> False
                | Some l \<Rightarrow>
                    diagnoseUnsatisfiedRequirement l ?r (getFirstType ?r) (getSecondType ?r) ?ps)
            then []
            else if isValid (loc ?a) then
              [Diagnose (loc ?a) (diagnosticOf ?r) (owner ?a) (getFirstType ?r) (getSecondType ?r),
               DiagnoseNote (noteLoc ?a) (diagnosticNoteOf ?r) (getFirstType ?r) (getSecondType ?r)
                 (if genericParams ?a \<noteq> []
                  then gatherGenericParamBindingsText ?a
                         [Some (getFirstType ?r), getSecondType ?r] (genericParams ?a)
                  else []),
               DiagnoseConformanceStack (noteLoc ?a) ?ps]
            else []) =
     [Diagnose (Some 1) types_not_equal (NominalType ''Owner'' [tyT]) tyInt (Some tyOpaque),
      DiagnoseNote (Some 1) types_not_equal_requirement tyInt (Some tyOpaque) [],
      DiagnoseConformanceStack (Some 1) [(tyArray tyInt, ''Codable'')]]"
    by (simp add: initialState_def isValid_def gatherGenericParamBindingsText_def example_defs)
  note inst = conditional_failure_diagnosed [OF ne pre c v h, of 0 "[SameTypeReq tyInt tyInt]"]
  from inst [unfolded evs] have
    r1: "checkPending (Suc 0) ?a
       (?st\<lparr>pendingReqs :=
          \<lparr>Requirements = [] @ ?r # [SameTypeReq tyInt tyInt], Parents = ?ps\<rparr> # []\<rparr>) =
      Some (Failure,
       [Diagnose (Some 1) types_not_equal (NominalType ''Owner'' [tyT]) tyInt (Some tyOpaque),
        DiagnoseNote (Some 1) types_not_equal_requirement tyInt (Some tyOpaque) [],
        DiagnoseConformanceStack (Some 1) [(tyArray tyInt, ''Codable'')]])"
    by (rule conjunct1)
  from inst have r2: "1 \<le> length ?ps" by (rule conjunct2)
  from ne pre c v h r1 r2 show ?thesis by (intro conjI)
qed

text \<open>
  C4 as stated fails when a listener takes the diagnosis over: the location is valid,
  the conditional requirement \<^verbatim>\<open>Int == Opaque\<close> of \<^verbatim>\<open>Array<Int>: Codable\<close> is violated,
  \<^verbatim>\<open>Failure\<close> is returned, and the only event is the listener's callback for the
  conformance found at the top level: no diagnostic is emitted.
\<close>

theorem listener_takes_diagnosis:
  "isValid (loc (exampleArgs (Some diagnoseAll) (Some 1) (tyArray tyInt))) \<and>
   violated (exampleArgs (Some diagnoseAll) (Some 1) (tyArray tyInt))
     [(tyArray tyInt, ''Codable'')] (SameTypeReq tyInt tyOpaque) \<and>
   checkGenericArguments 3 (exampleArgs (Some diagnoseAll) (Some 1) (tyArray tyInt))
     [ConformanceReq tyT ''Codable''] =
   Some (Failure,
     [SatisfiedConformance tyT (tyArray tyInt)
        (ProtocolConformanceRef ''Array: Codable''
           [SameTypeReq tyInt tyOpaque, SameTypeReq tyInt tyInt])])"
proof (intro conjI)
  show "isValid (loc (exampleArgs (Some diagnoseAll) (Some 1) (tyArray tyInt)))"
    by (simp add: isValid_def example_defs)
  show "violated (exampleArgs (Some diagnoseAll) (Some 1) (tyArray tyInt))
     [(tyArray tyInt, ''Codable'')] (SameTypeReq tyInt tyOpaque)"
    by (simp add: violated_def concreteRequirement_def vetoed_def intoContext_def example_defs)
  show "checkGenericArguments 3 (exampleArgs (Some diagnoseAll) (Some 1) (tyArray tyInt))
     [ConformanceReq tyT ''Codable''] =
   Some (Failure,
     [SatisfiedConformance tyT (tyArray tyInt)
        (ProtocolConformanceRef ''Array: Codable''
           [SameTypeReq tyInt tyOpaque, SameTypeReq tyInt tyInt])])"
    by (simp add: run_defs example_defs numeral_3_eq_3)
qed

text \<open>
  C10. The step for a layout requirement returns only when the constraint is a class
  constraint that the concrete subject does not satisfy, and then with \<^verbatim>\<open>Failure\<close>.
  A layout requirement whose constraint is not the class tag is passed over: the loop
  goes on with the requirements after it, the state unchanged, or with \<^verbatim>\<open>valid\<close>
  cleared when the subject did not substitute; it never returns \<^verbatim>\<open>Failure\<close>.
\<close>

theorem layout_requirement_failure:
  "(checkRequirement a ps (LayoutReq t l) st = Return res st' \<longrightarrow>
      res = Failure \<and> isClass l \<and>
      (\<exists>t'. concreteRequirement a ps (LayoutReq t l) = Some (LayoutReq t' l) \<and>
            \<not> satisfiesClassConstraint a t')) \<and>
   (\<not> isClass l \<longrightarrow>
      checkRequirement a ps (LayoutReq t l) st =
        Continue (if concreteRequirement a ps (LayoutReq t l) = None
                  then st\<lparr>valid := False\<rparr> else st) \<and>
      checkRequirements a ps (LayoutReq t l # rest) st =
        checkRequirements a ps rest
          (if concreteRequirement a ps (LayoutReq t l) = None then st\<lparr>valid := False\<rparr> else st))"
proof -
  have shape: "\<exists>t'. c = LayoutReq t' l" if "concreteRequirement a ps (LayoutReq t l) = Some c" for c
    using that by (auto simp: concreteRequirement_def Let_def split: option.splits if_splits)
  have ret: "res = Failure \<and> isClass l \<and>
      (\<exists>t'. concreteRequirement a ps (LayoutReq t l) = Some (LayoutReq t' l) \<and>
            \<not> satisfiesClassConstraint a t')"
    if r: "checkRequirement a ps (LayoutReq t l) st = Return res st'"
  proof (cases "concreteRequirement a ps (LayoutReq t l)")
    case None
    with r show ?thesis by (simp add: checkRequirement_alt)
  next
    case (Some c)
    with shape obtain t' where c: "c = LayoutReq t' l" by blast
    with Some r show ?thesis
      by (auto simp: checkRequirement_alt checkConcrete_def split: if_splits)
  qed
  have pass: "checkRequirement a ps (LayoutReq t l) st =
        Continue (if concreteRequirement a ps (LayoutReq t l) = None
                  then st\<lparr>valid := False\<rparr> else st)"
    if n: "\<not> isClass l"
  proof (cases "concreteRequirement a ps (LayoutReq t l)")
    case None
    then show ?thesis by (simp add: checkRequirement_alt)
  next
    case (Some c)
    with shape obtain t' where c: "c = LayoutReq t' l" by blast
    with Some n show ?thesis
      by (simp add: checkRequirement_alt checkConcrete_def)
  qed
  from ret pass show ?thesis by simp
qed

theorem layout_requirement_failure_witness:
  "checkRequirement (exampleArgs None (Some 1) tyInt) [] (LayoutReq tyT ClassLayout) (initialState []) =
     Return Failure ((initialState [])\<lparr>events :=
       [Diagnose (Some 1) type_is_not_a_class (NominalType ''Owner'' [tyT]) tyInt None,
        DiagnoseNote (Some 1) anyobject_requirement tyT None '' [with T = Int]'',
        DiagnoseConformanceStack (Some 1) []]\<rparr>) \<and>
   isClass ClassLayout \<and>
   (\<exists>t'. concreteRequirement (exampleArgs None (Some 1) tyInt) [] (LayoutReq tyT ClassLayout) =
           Some (LayoutReq t' ClassLayout) \<and>
         \<not> satisfiesClassConstraint (exampleArgs None (Some 1) tyInt) t') \<and>
   \<not> isClass TrivialLayout \<and>
   checkRequirement (exampleArgs None (Some 1) tyInt) [] (LayoutReq tyT TrivialLayout) (initialState []) =
     Continue (initialState []) \<and>
   checkRequirements (exampleArgs None (Some 1) tyInt) [] [LayoutReq tyT TrivialLayout] (initialState []) =
     Continue (initialState [])"
proof -
  let ?a = "exampleArgs None (Some 1) tyInt"
  let ?st = "initialState []"
  let ?st' = "?st\<lparr>events :=
       [Diagnose (Some 1) type_is_not_a_class (NominalType ''Owner'' [tyT]) tyInt None,
        DiagnoseNote (Some 1) anyobject_requirement tyT None '' [with T = Int]'',
        DiagnoseConformanceStack (Some 1) []]\<rparr>"
  have r: "checkRequirement ?a [] (LayoutReq tyT ClassLayout) ?st = Return Failure ?st'"
    by (simp add: run_defs example_defs)
  have n: "\<not> isClass TrivialLayout" by simp
  have c: "(if concreteRequirement ?a [] (LayoutReq tyT TrivialLayout) = None
             then ?st\<lparr>valid := False\<rparr> else ?st) = ?st"
    by (simp add: concreteRequirement_def intoContext_def example_defs)
  note i1 = layout_requirement_failure [of ?a "[]" tyT ClassLayout ?st Failure ?st']
  note i2 = layout_requirement_failure [of ?a "[]" tyT TrivialLayout ?st Failure ?st "[]"]
  from i1 r have p1: "isClass ClassLayout"
    and p2: "\<exists>t'. concreteRequirement ?a [] (LayoutReq tyT ClassLayout) = Some (LayoutReq t' ClassLayout) \<and>
         \<not> satisfiesClassConstraint ?a t'"
    by blast+
  from i2 n have "checkRequirement ?a [] (LayoutReq tyT TrivialLayout) ?st =
        Continue (if concreteRequirement ?a [] (LayoutReq tyT TrivialLayout) = None
                  then ?st\<lparr>valid := False\<rparr> else ?st)"
    and "checkRequirements ?a [] [LayoutReq tyT TrivialLayout] ?st =
        checkRequirements ?a [] []
          (if concreteRequirement ?a [] (LayoutReq tyT TrivialLayout) = None
           then ?st\<lparr>valid := False\<rparr> else ?st)"
    by blast+
  then have p3: "checkRequirement ?a [] (LayoutReq tyT TrivialLayout) ?st = Continue ?st"
    and p4: "checkRequirements ?a [] [LayoutReq tyT TrivialLayout] ?st = Continue ?st"
    unfolding c by simp_all
  from r p1 p2 n p3 p4 show ?thesis by (intro conjI)
qed

section \<open>Properties of the referenced-parameter check\<close>

declare findReferencedGenericParamsInRequirements.simps [simp del]

text \<open>The walker collects the type parameters that occur whole in a type.\<close>

lemma isTypeParameter_hasTypeParameter: "isTypeParameter t \<Longrightarrow> hasTypeParameter t"
  by (induction t) simp_all

lemma outermostTypeParameters_none:
  "\<not> hasTypeParameter t \<Longrightarrow> outermostTypeParameters t = {}"
  by (induction t) (auto dest: isTypeParameter_hasTypeParameter)

lemma walk_outermost: "walk t = outermostTypeParameters t"
proof (induction t)
  case (DependentMemberType b n)
  then show ?case
    by (auto simp: outermostTypeParameters_none dest: isTypeParameter_hasTypeParameter)
next
  case (NominalType n args)
  then show ?case by (auto simp: outermostTypeParameters_none)
next
  case (FunctionType ps r)
  then show ?case by (auto simp: outermostTypeParameters_none)
qed simp_all

lemma used_outermost:
  "genericParamsUsedByRequirementTypes r =
     (\<Union>a \<in> set (typesOfRequirement r). outermostTypeParameters a)"
  by (cases r)
    (auto simp: genericParamsUsedByRequirementTypes_def Let_def walk_outermost
      outermostTypeParameters_none)

lemma reached_ByUsed:
  assumes "req \<in> set reqs" and "u \<in> genericParamsUsedByRequirementTypes req"
    and "getRootGenericParam u \<in> reached D reqs"
    and "t \<in> genericParamsUsedByRequirementTypes req" and "isGenericTypeParamType t"
  shows "t \<in> reached D reqs"
proof -
  from assms(2) obtain a where a: "a \<in> set (typesOfRequirement req)"
    "u \<in> outermostTypeParameters a"
    by (auto simp: used_outermost)
  from assms(4) obtain b where b: "b \<in> set (typesOfRequirement req)"
    "t \<in> outermostTypeParameters b"
    by (auto simp: used_outermost)
  from assms(5) obtain p where p: "t = GenericTypeParamType p" by (cases t) simp_all
  from reached.ByRequirement [OF assms(1) a assms(3) b(1), of p] b(2) p show ?thesis by simp
qed

lemma reqTypesVisitor_snd:
  "snd (reqTypesVisitor R r) =
     (if \<exists>t \<in> genericParamsUsedByRequirementTypes r. getRootGenericParam t \<in> R
      then R \<union> {t \<in> genericParamsUsedByRequirementTypes r. isGenericTypeParamType t}
      else R)"
  by (simp add: reqTypesVisitor_def Let_def)

lemma reqTypesVisitor_fst:
  "fst (reqTypesVisitor R r) \<longleftrightarrow> snd (reqTypesVisitor R r) \<noteq> R"
  by (auto simp: reqTypesVisitor_def Let_def)

lemma visitRequirements_Cons:
  "visitRequirements (r # rs) R =
     (fst (reqTypesVisitor R r) \<or> fst (visitRequirements rs (snd (reqTypesVisitor R r))),
      snd (visitRequirements rs (snd (reqTypesVisitor R r))))"
  by (simp add: case_prod_beta)

lemma visitRequirements_mono: "R \<subseteq> snd (visitRequirements rs R)"
proof (induction rs arbitrary: R)
  case Nil
  show ?case by simp
next
  case (Cons r rs)
  have "R \<subseteq> snd (reqTypesVisitor R r)" by (auto simp: reqTypesVisitor_snd)
  also have "\<dots> \<subseteq> snd (visitRequirements rs (snd (reqTypesVisitor R r)))" by (rule Cons.IH)
  finally show ?case by (simp add: visitRequirements_Cons del: visitRequirements.simps)
qed

text \<open>A pass stays inside the closure.\<close>

lemma visitRequirements_reached:
  "R \<subseteq> reached D reqs \<Longrightarrow> set rs \<subseteq> set reqs \<Longrightarrow>
   snd (visitRequirements rs R) \<subseteq> reached D reqs"
proof (induction rs arbitrary: R)
  case Nil
  then show ?case by simp
next
  case (Cons r rs)
  have "snd (reqTypesVisitor R r) \<subseteq> reached D reqs"
  proof
    fix t assume t: "t \<in> snd (reqTypesVisitor R r)"
    show "t \<in> reached D reqs"
    proof (cases "t \<in> R")
      case True
      with Cons.prems(1) show ?thesis by blast
    next
      case False
      with t obtain u where u: "u \<in> genericParamsUsedByRequirementTypes r"
        "getRootGenericParam u \<in> R"
        and tt: "t \<in> genericParamsUsedByRequirementTypes r" "isGenericTypeParamType t"
        by (auto simp: reqTypesVisitor_snd split: if_splits)
      from Cons.prems(2) have "r \<in> set reqs" by simp
      moreover from u(2) Cons.prems(1) have "getRootGenericParam u \<in> reached D reqs" by blast
      ultimately show ?thesis using u(1) tt by (blast intro: reached_ByUsed)
    qed
  qed
  moreover from Cons.prems(2) have "set rs \<subseteq> set reqs" by simp
  ultimately have "snd (visitRequirements rs (snd (reqTypesVisitor R r))) \<subseteq> reached D reqs"
    by (rule Cons.IH)
  then show ?case by (simp add: visitRequirements_Cons del: visitRequirements.simps)
qed

text \<open>A pass that finds nothing new leaves a set that the requirements cannot extend.\<close>

lemma visitRequirements_stable:
  "\<not> fst (visitRequirements rs R) \<Longrightarrow>
   snd (visitRequirements rs R) = R \<and>
   (\<forall>r \<in> set rs. (\<exists>u \<in> genericParamsUsedByRequirementTypes r. getRootGenericParam u \<in> R) \<longrightarrow>
      {t \<in> genericParamsUsedByRequirementTypes r. isGenericTypeParamType t} \<subseteq> R)"
proof (induction rs arbitrary: R)
  case Nil
  then show ?case by simp
next
  case (Cons r rs)
  from Cons.prems have f1: "\<not> fst (reqTypesVisitor R r)"
    and f2: "\<not> fst (visitRequirements rs (snd (reqTypesVisitor R r)))"
    by (simp_all add: visitRequirements_Cons del: visitRequirements.simps)
  from f1 have same: "snd (reqTypesVisitor R r) = R" by (simp add: reqTypesVisitor_fst)
  from Cons.IH [OF f2] same have rest: "snd (visitRequirements rs R) = R"
    "\<forall>r \<in> set rs. (\<exists>u \<in> genericParamsUsedByRequirementTypes r. getRootGenericParam u \<in> R) \<longrightarrow>
      {t \<in> genericParamsUsedByRequirementTypes r. isGenericTypeParamType t} \<subseteq> R"
    by simp_all
  from same have "(\<exists>u \<in> genericParamsUsedByRequirementTypes r. getRootGenericParam u \<in> R) \<longrightarrow>
      {t \<in> genericParamsUsedByRequirementTypes r. isGenericTypeParamType t} \<subseteq> R"
    by (auto simp: reqTypesVisitor_snd split: if_splits)
  with rest same show ?case by (simp add: visitRequirements_Cons del: visitRequirements.simps)
qed

text \<open>The fixed-point loop computes the closure.\<close>

lemma findReferenced_reached:
  "D \<subseteq> R \<Longrightarrow> R \<subseteq> reached D reqs \<Longrightarrow>
   findReferencedGenericParamsInRequirements reqs R = reached D reqs"
proof (induction reqs R rule: findReferencedGenericParamsInRequirements.induct)
  case (1 reqs R)
  let ?R' = "snd (visitRequirements reqs R)"
  have sub: "?R' \<subseteq> reached D reqs"
    using "1.prems"(2) by (rule visitRequirements_reached) simp
  have ext: "R \<subseteq> ?R'" by (rule visitRequirements_mono)
  show ?case
  proof (cases "fst (visitRequirements reqs R)")
    case True
    then have "findReferencedGenericParamsInRequirements reqs R =
        findReferencedGenericParamsInRequirements reqs ?R'"
      by (subst findReferencedGenericParamsInRequirements.simps) (simp add: case_prod_beta)
    also have "\<dots> = reached D reqs"
    proof -
      have d: "D \<subseteq> ?R'" using "1.prems"(1) ext by blast
      have pair: "(fst (visitRequirements reqs R), ?R') = visitRequirements reqs R" by simp
      from "1.IH" [OF pair True d sub] show ?thesis .
    qed
    finally show ?thesis .
  next
    case False
    then have res: "findReferencedGenericParamsInRequirements reqs R = R"
      using visitRequirements_stable [OF False]
      by (subst findReferencedGenericParamsInRequirements.simps) (simp add: case_prod_beta)
    from visitRequirements_stable [OF False]
    have closed: "\<And>r. r \<in> set reqs \<Longrightarrow>
        \<exists>u \<in> genericParamsUsedByRequirementTypes r. getRootGenericParam u \<in> R \<Longrightarrow>
        {t \<in> genericParamsUsedByRequirementTypes r. isGenericTypeParamType t} \<subseteq> R"
      by blast
    have "reached D reqs \<subseteq> R"
    proof
      fix t assume "t \<in> reached D reqs"
      then show "t \<in> R"
      proof (induction rule: reached.induct)
        case (Direct t)
        with "1.prems"(1) show ?case by blast
      next
        case (ByRequirement req a u b p)
        have used: "u \<in> genericParamsUsedByRequirementTypes req"
          "GenericTypeParamType p \<in> genericParamsUsedByRequirementTypes req"
          using ByRequirement.hyps(2,3,5,6) by (auto simp: used_outermost)
        from used(1) ByRequirement.IH
        have "\<exists>u \<in> genericParamsUsedByRequirementTypes req. getRootGenericParam u \<in> R"
          by blast
        from closed [OF ByRequirement.hyps(1) this] used(2) show ?case by auto
      qed
    qed
    with "1.prems"(2) res show ?thesis by simp
  qed
qed

lemma reached_direct: "D \<subseteq> reached D reqs"
  by (auto intro: reached.Direct)

lemma findReferenced_direct:
  "findReferencedGenericParamsInRequirements reqs D = reached D reqs"
  using findReferenced_reached [of D D reqs] reached_direct [of D reqs] by blast

lemma findReferenced_again:
  "findReferencedGenericParamsInRequirements reqs (reached D reqs) = reached D reqs"
  using findReferenced_reached [of D "reached D reqs" reqs] reached_direct [of D reqs] by blast

text \<open>The loop over the parameters diagnoses those of the given depth outside the closure.\<close>

lemma checkEachGenericParam_result:
  assumes "referencedGenericParams s = reached D (getRequirements sig) \<or>
           (referencedGenericParams s = D \<and> requirements s = [])"
  shows "diagnostics (checkEachGenericParam sig d ps s) =
           diagnostics s @ map unreferenced_generic_parameter
             (filter (\<lambda>p. getDepth p = d \<and>
                GenericTypeParamType p \<notin> reached D (getRequirements sig)) ps) \<and>
         interfaceType (checkEachGenericParam sig d ps s) =
           (if filter (\<lambda>p. getDepth p = d \<and>
                GenericTypeParamType p \<notin> reached D (getRequirements sig)) ps = []
            then interfaceType s else ErrorType) \<and>
         isInvalid (checkEachGenericParam sig d ps s) =
           (isInvalid s \<or> filter (\<lambda>p. getDepth p = d \<and>
                GenericTypeParamType p \<notin> reached D (getRequirements sig)) ps \<noteq> [])"
  using assms
proof (induction ps arbitrary: s)
  case Nil
  show ?case by simp
next
  case (Cons g ps)
  let ?C = "reached D (getRequirements sig)"
  let ?inv = "\<lambda>s. referencedGenericParams s = ?C \<or>
           (referencedGenericParams s = D \<and> requirements s = [])"
  let ?s1 = "s\<lparr>requirements := getRequirements sig,
               referencedGenericParams :=
                 findReferencedGenericParamsInRequirements (getRequirements sig)
                   (referencedGenericParams s)\<rparr>"
  have s1: "referencedGenericParams ?s1 = ?C"
  proof (cases "referencedGenericParams s = ?C")
    case True
    then show ?thesis by (simp add: findReferenced_again)
  next
    case False
    with Cons.prems have "referencedGenericParams s = D" by blast
    then show ?thesis by (simp add: findReferenced_direct)
  qed
  have direct: "GenericTypeParamType g \<in> referencedGenericParams s \<Longrightarrow> GenericTypeParamType g \<in> ?C"
    using Cons.prems reached_direct [of D "getRequirements sig"] by auto
  have searched: "requirements s \<noteq> [] \<Longrightarrow> referencedGenericParams s = ?C"
    using Cons.prems by auto
  show ?case
  proof (cases "getDepth g = d")
    case False
    with Cons.IH [OF Cons.prems] show ?thesis by simp
  next
    case depth: True
    show ?thesis
    proof (cases "GenericTypeParamType g \<in> referencedGenericParams s")
      case True
      with depth direct Cons.IH [OF Cons.prems] show ?thesis by simp
    next
      case notDirect: False
      show ?thesis
      proof (cases "requirements s = []")
        case True
        show ?thesis
        proof (cases "GenericTypeParamType g \<in> ?C")
          case inC: True
          have "?inv ?s1" using s1 by simp
          from Cons.IH [OF this] depth notDirect True inC s1 show ?thesis
            by (simp add: Let_def)
        next
          case notC: False
          have "?inv (diagnoseUnreferenced g ?s1)"
            using s1 by (simp add: diagnoseUnreferenced_def)
          from Cons.IH [OF this] depth notDirect True notC s1 show ?thesis
            by (simp add: Let_def diagnoseUnreferenced_def)
        qed
      next
        case False
        with searched notDirect have notC: "GenericTypeParamType g \<notin> ?C" by simp
        have "?inv (diagnoseUnreferenced g s)"
          using searched False by (simp add: diagnoseUnreferenced_def)
        from Cons.IH [OF this] depth notDirect False notC show ?thesis
          by (simp add: diagnoseUnreferenced_def)
      qed
    qed
  qed
qed

lemma reached_no_requirements: "reached D [] = D"
proof
  show "reached D [] \<subseteq> D"
  proof
    fix t assume "t \<in> reached D []"
    then show "t \<in> D" by (induction rule: reached.induct) simp_all
  qed
  show "D \<subseteq> reached D []" by (rule reached_direct)
qed

text \<open>The chain of same-type requirements reaches every parameter from \<^verbatim>\<open>U\<close>.\<close>

lemma chain_reached:
  "GenericTypeParamType (GenericParam 0 3) \<in>
     reached {GenericTypeParamType (GenericParam 0 3)} (getRequirements chainSignature)"
  "GenericTypeParamType (GenericParam 0 2) \<in>
     reached {GenericTypeParamType (GenericParam 0 3)} (getRequirements chainSignature)"
  "GenericTypeParamType (GenericParam 0 1) \<in>
     reached {GenericTypeParamType (GenericParam 0 3)} (getRequirements chainSignature)"
  "GenericTypeParamType (GenericParam 0 0) \<in>
     reached {GenericTypeParamType (GenericParam 0 3)} (getRequirements chainSignature)"
proof -
  let ?D = "{GenericTypeParamType (GenericParam 0 3)}"
  let ?reqs = "getRequirements chainSignature"
  let ?T1 = "GenericTypeParamType (GenericParam 0 0)"
  let ?T2 = "GenericTypeParamType (GenericParam 0 1)"
  let ?T3 = "GenericTypeParamType (GenericParam 0 2)"
  let ?U = "GenericTypeParamType (GenericParam 0 3)"
  show u: "?U \<in> reached ?D ?reqs" by (simp add: reached.Direct)
  have r3: "SameTypeReq ?T3 ?U \<in> set ?reqs" by (simp add: chainSignature_def)
  have r2: "SameTypeReq ?T2 (DependentMemberType ?T3 ''N'') \<in> set ?reqs"
    by (simp add: chainSignature_def)
  have r1: "SameTypeReq ?T1 (DependentMemberType ?T2 ''M'') \<in> set ?reqs"
    by (simp add: chainSignature_def)
  have u3: "genericParamsUsedByRequirementTypes (SameTypeReq ?T3 ?U) = {?T3, ?U}"
    by (auto simp: genericParamsUsedByRequirementTypes_def)
  have u2: "genericParamsUsedByRequirementTypes (SameTypeReq ?T2 (DependentMemberType ?T3 ''N'')) =
      {?T2, DependentMemberType ?T3 ''N''}"
    by (auto simp: genericParamsUsedByRequirementTypes_def)
  have u1: "genericParamsUsedByRequirementTypes (SameTypeReq ?T1 (DependentMemberType ?T2 ''M'')) =
      {?T1, DependentMemberType ?T2 ''M''}"
    by (auto simp: genericParamsUsedByRequirementTypes_def)
  show t3: "?T3 \<in> reached ?D ?reqs"
    using reached_ByUsed [OF r3, of ?U ?D ?T3] u by (simp add: u3)
  show t2: "?T2 \<in> reached ?D ?reqs"
    using reached_ByUsed [OF r2, of "DependentMemberType ?T3 ''N''" ?D ?T2] t3
    by (simp add: u2)
  show "?T1 \<in> reached ?D ?reqs"
    using reached_ByUsed [OF r1, of "DependentMemberType ?T2 ''M''" ?D ?T1] t2
    by (simp add: u1)
qed

text \<open>The result of the whole check, for a declaration that is checked.\<close>

lemma checkReferencedGenericParams_result:
  assumes "\<not> isAccessorDecl dc" and "getGenericParamList dc = Some (front # others)"
    and "getInterfaceType dc = FunctionType params result"
  shows "\<exists>s. checkReferencedGenericParams dc = Inr s \<and>
         diagnostics s =
           map unreferenced_generic_parameter
             (filter (\<lambda>p. getDepth p = getDepth front \<and>
                GenericTypeParamType p \<notin>
                  reached ((\<Union>t \<in> set params. outermostTypeParameters t) \<union>
                           outermostTypeParameters result)
                    (getRequirements (getGenericSignatureOfContext dc)))
                (getGenericParams (getGenericSignatureOfContext dc))) \<and>
         interfaceType s = (if diagnostics s = [] then getInterfaceType dc else ErrorType) \<and>
         isInvalid s = (diagnostics s \<noteq> [])"
proof -
  let ?D = "(\<Union>t \<in> set params. outermostTypeParameters t) \<union> outermostTypeParameters result"
  let ?init = "\<lparr>referencedGenericParams = ?D, requirements = [],
              interfaceType = getInterfaceType dc, isInvalid = False, diagnostics = []\<rparr>"
  let ?sig = "getGenericSignatureOfContext dc"
  let ?s = "checkEachGenericParam ?sig (getDepth front) (getGenericParams ?sig) ?init"
  have run: "checkReferencedGenericParams dc = Inr ?s"
    using assms by (simp add: checkReferencedGenericParams_def walk_outermost)
  have "referencedGenericParams ?init = reached ?D (getRequirements ?sig) \<or>
         (referencedGenericParams ?init = ?D \<and> requirements ?init = [])"
    by simp
  from checkEachGenericParam_result [OF this, of "getDepth front" "getGenericParams ?sig"]
  have "diagnostics ?s =
         map unreferenced_generic_parameter
           (filter (\<lambda>p. getDepth p = getDepth front \<and>
              GenericTypeParamType p \<notin> reached ?D (getRequirements ?sig))
              (getGenericParams ?sig)) \<and>
       interfaceType ?s = (if diagnostics ?s = [] then getInterfaceType dc else ErrorType) \<and>
       isInvalid ?s = (diagnostics ?s \<noteq> [])"
    by simp
  with run show ?thesis by simp
qed

text \<open>Whatever the sources take as referenced is referenced in the words of the spec.\<close>

lemma root_genericParamsIn:
  "u \<in> outermostTypeParameters a \<Longrightarrow>
   getRootGenericParam u \<in> genericParamsIn a \<and> isGenericTypeParamType (getRootGenericParam u)"
proof (induction a arbitrary: u)
  case (DependentMemberType b n)
  have root: "isTypeParameter t \<Longrightarrow>
      getRootGenericParam t \<in> genericParamsIn t \<and> isGenericTypeParamType (getRootGenericParam t)"
    for t
    by (induction t) simp_all
  show ?case
  proof (cases "isTypeParameter b")
    case True
    with DependentMemberType.prems root [of b] show ?thesis by simp
  next
    case False
    with DependentMemberType show ?thesis by simp
  qed
qed auto

lemma parameter_genericParamsIn:
  "GenericTypeParamType p \<in> outermostTypeParameters b \<Longrightarrow>
   GenericTypeParamType p \<in> genericParamsIn b"
  by (induction b) (auto split: if_splits)

lemma reached_referencedBySpec:
  assumes "t \<in> reached D reqs" and "isGenericTypeParamType t"
    and "\<And>x. x \<in> D \<Longrightarrow> isGenericTypeParamType x \<Longrightarrow> x \<in> D'"
  shows "t \<in> referencedBySpec D' reqs"
  using assms(1,2)
proof (induction rule: reached.induct)
  case (Direct t)
  with assms(3) show ?case by (auto intro: referencedBySpec.Mentioned)
next
  case (ByRequirement req a u b p)
  from root_genericParamsIn [OF ByRequirement.hyps(3)]
  have r: "getRootGenericParam u \<in> genericParamsIn a"
    "isGenericTypeParamType (getRootGenericParam u)" by simp_all
  from ByRequirement.IH [OF r(2)] have "getRootGenericParam u \<in> referencedBySpec D' reqs" .
  from referencedBySpec.ByMention [OF ByRequirement.hyps(1,2) r(1) this ByRequirement.hyps(5)
      parameter_genericParamsIn [OF ByRequirement.hyps(6)]]
  show ?case .
qed

text \<open>In the two declarations that mention \<^verbatim>\<open>T\<close> only as the base of \<^verbatim>\<open>T.M\<close>, the
  closure is the set of the types referenced directly.\<close>

lemma memberRequirement_reached:
  "reached {GenericTypeParamType (GenericParam 0 1)}
     [ConformanceReq (GenericTypeParamType (GenericParam 0 0)) ''P'',
      SameTypeReq (DependentMemberType (GenericTypeParamType (GenericParam 0 0)) ''M'')
        (GenericTypeParamType (GenericParam 0 1))] =
   {GenericTypeParamType (GenericParam 0 1)}"
proof
  show "reached {GenericTypeParamType (GenericParam 0 1)}
     [ConformanceReq (GenericTypeParamType (GenericParam 0 0)) ''P'',
      SameTypeReq (DependentMemberType (GenericTypeParamType (GenericParam 0 0)) ''M'')
        (GenericTypeParamType (GenericParam 0 1))] \<subseteq>
   {GenericTypeParamType (GenericParam 0 1)}"
  proof
    fix t
    assume "t \<in> reached {GenericTypeParamType (GenericParam 0 1)}
     [ConformanceReq (GenericTypeParamType (GenericParam 0 0)) ''P'',
      SameTypeReq (DependentMemberType (GenericTypeParamType (GenericParam 0 0)) ''M'')
        (GenericTypeParamType (GenericParam 0 1))]"
    then show "t \<in> {GenericTypeParamType (GenericParam 0 1)}"
      by (induction rule: reached.induct) auto
  qed
qed (rule reached_direct)

lemma memberFormal_reached:
  "reached {DependentMemberType (GenericTypeParamType (GenericParam 0 0)) ''M''}
     [ConformanceReq (GenericTypeParamType (GenericParam 0 0)) ''P''] =
   {DependentMemberType (GenericTypeParamType (GenericParam 0 0)) ''M''}"
proof
  show "reached {DependentMemberType (GenericTypeParamType (GenericParam 0 0)) ''M''}
     [ConformanceReq (GenericTypeParamType (GenericParam 0 0)) ''P''] \<subseteq>
   {DependentMemberType (GenericTypeParamType (GenericParam 0 0)) ''M''}"
  proof
    fix t
    assume "t \<in> reached {DependentMemberType (GenericTypeParamType (GenericParam 0 0)) ''M''}
     [ConformanceReq (GenericTypeParamType (GenericParam 0 0)) ''P'']"
    then show "t \<in> {DependentMemberType (GenericTypeParamType (GenericParam 0 0)) ''M''}"
      by (induction rule: reached.induct) auto
  qed
qed (rule reached_direct)

text \<open>
  C5. For a declaration that is not an accessor, has generic parameters of its own and
  a function type, \<^verbatim>\<open>checkReferencedGenericParams\<close> diagnoses, in the order of the
  signature, exactly the generic parameters of the depth of its own parameter list
  that are outside the closure \<^verbatim>\<open>reached\<close>: a type parameter is reached when it occurs
  whole in a parameter or result type, and a generic parameter is reached when it is
  itself a type of a requirement (or occurs in one outside any dependent member type)
  and the root of some type parameter of that requirement is reached. If a parameter
  is diagnosed, the interface type becomes the error type and the declaration is
  marked invalid; otherwise both are left alone. An accessor is left alone without
  any check. In the chain \<^verbatim>\<open>T1 == T2.M\<close>, \<^verbatim>\<open>T2 == T3.N\<close>, \<^verbatim>\<open>T3 == U\<close> with \<^verbatim>\<open>U\<close> referenced
  directly, nothing is diagnosed. Every generic parameter that is reached is
  referenced in the words of the spec, so a parameter that the spec leaves
  unreferenced is diagnosed.
\<close>

theorem unreferenced_generic_params_diagnosed:
  "(\<not> isAccessorDecl dc \<and> getGenericParamList dc = Some (front # others) \<and>
    getInterfaceType dc = FunctionType params result \<longrightarrow>
      (\<exists>s. checkReferencedGenericParams dc = Inr s \<and>
         diagnostics s =
           map unreferenced_generic_parameter
             (filter (\<lambda>p. getDepth p = getDepth front \<and>
                GenericTypeParamType p \<notin>
                  reached ((\<Union>t \<in> set params. outermostTypeParameters t) \<union>
                           outermostTypeParameters result)
                    (getRequirements (getGenericSignatureOfContext dc)))
                (getGenericParams (getGenericSignatureOfContext dc))) \<and>
         interfaceType s = (if diagnostics s = [] then getInterfaceType dc else ErrorType) \<and>
         isInvalid s = (diagnostics s \<noteq> []))) \<and>
   (isAccessorDecl dc \<longrightarrow>
      (\<exists>s. checkReferencedGenericParams dc = Inr s \<and> diagnostics s = [] \<and>
         interfaceType s = getInterfaceType dc \<and> \<not> isInvalid s)) \<and>
   (\<exists>s. checkReferencedGenericParams chainContext = Inr s \<and> diagnostics s = [] \<and>
      interfaceType s = getInterfaceType chainContext \<and> \<not> isInvalid s) \<and>
   (GenericTypeParamType p \<in>
      reached ((\<Union>t \<in> set params. outermostTypeParameters t) \<union> outermostTypeParameters result)
        reqs \<longrightarrow>
    GenericTypeParamType p \<in>
      referencedBySpec ((\<Union>t \<in> set params. genericParamsIn t) \<union> genericParamsIn result) reqs)"
proof -
  have general: "\<not> isAccessorDecl dc \<and> getGenericParamList dc = Some (front # others) \<and>
    getInterfaceType dc = FunctionType params result \<longrightarrow>
      (\<exists>s. checkReferencedGenericParams dc = Inr s \<and>
         diagnostics s =
           map unreferenced_generic_parameter
             (filter (\<lambda>p. getDepth p = getDepth front \<and>
                GenericTypeParamType p \<notin>
                  reached ((\<Union>t \<in> set params. outermostTypeParameters t) \<union>
                           outermostTypeParameters result)
                    (getRequirements (getGenericSignatureOfContext dc)))
                (getGenericParams (getGenericSignatureOfContext dc))) \<and>
         interfaceType s = (if diagnostics s = [] then getInterfaceType dc else ErrorType) \<and>
         isInvalid s = (diagnostics s \<noteq> []))"
    using checkReferencedGenericParams_result [of dc front others params result] by blast
  have accessor: "isAccessorDecl dc \<longrightarrow>
      (\<exists>s. checkReferencedGenericParams dc = Inr s \<and> diagnostics s = [] \<and>
         interfaceType s = getInterfaceType dc \<and> \<not> isInvalid s)"
    by (simp add: checkReferencedGenericParams_def)
  have chain: "\<exists>s. checkReferencedGenericParams chainContext = Inr s \<and> diagnostics s = [] \<and>
      interfaceType s = getInterfaceType chainContext \<and> \<not> isInvalid s"
  proof -
    have c: "\<not> isAccessorDecl chainContext"
      "getGenericParamList chainContext =
         Some (GenericParam 0 0 # [GenericParam 0 1, GenericParam 0 2, GenericParam 0 3])"
      "getInterfaceType chainContext = FunctionType [GenericTypeParamType (GenericParam 0 3)] tyVoid"
      by (simp_all add: chainContext_def)
    have d: "(\<Union>t \<in> set [GenericTypeParamType (GenericParam 0 3)]. outermostTypeParameters t) \<union>
        outermostTypeParameters tyVoid = {GenericTypeParamType (GenericParam 0 3)}"
      by (simp add: tyVoid_def)
    have sig: "getGenericSignatureOfContext chainContext = chainSignature"
      "getGenericParams chainSignature =
         [GenericParam 0 0, GenericParam 0 1, GenericParam 0 2, GenericParam 0 3]"
      by (simp_all add: chainContext_def chainSignature_def)
    from checkReferencedGenericParams_result [OF c] show ?thesis
      unfolding d sig by (auto simp: chain_reached)
  qed
  have spec: "GenericTypeParamType p \<in>
      reached ((\<Union>t \<in> set params. outermostTypeParameters t) \<union> outermostTypeParameters result)
        reqs \<longrightarrow>
    GenericTypeParamType p \<in>
      referencedBySpec ((\<Union>t \<in> set params. genericParamsIn t) \<union> genericParamsIn result) reqs"
  proof
    assume r: "GenericTypeParamType p \<in>
      reached ((\<Union>t \<in> set params. outermostTypeParameters t) \<union> outermostTypeParameters result)
        reqs"
    show "GenericTypeParamType p \<in>
      referencedBySpec ((\<Union>t \<in> set params. genericParamsIn t) \<union> genericParamsIn result) reqs"
    proof (rule reached_referencedBySpec [OF r])
      show "isGenericTypeParamType (GenericTypeParamType p)" by simp
    next
      fix x
      assume "x \<in> (\<Union>t \<in> set params. outermostTypeParameters t) \<union> outermostTypeParameters result"
        and "isGenericTypeParamType x"
      then show "x \<in> (\<Union>t \<in> set params. genericParamsIn t) \<union> genericParamsIn result"
        by (cases x) (auto dest: parameter_genericParamsIn)
    qed
  qed
  from general accessor chain spec show ?thesis by (intro conjI)
qed

theorem unreferenced_generic_params_diagnosed_witness:
  "\<not> isAccessorDecl unusedContext \<and>
   getGenericParamList unusedContext = Some (GenericParam 0 0 # [GenericParam 0 1]) \<and>
   getInterfaceType unusedContext = FunctionType [GenericTypeParamType (GenericParam 0 0)] tyVoid \<and>
   (\<exists>s. checkReferencedGenericParams unusedContext = Inr s \<and>
      diagnostics s = [unreferenced_generic_parameter (GenericParam 0 1)] \<and>
      interfaceType s = ErrorType \<and> isInvalid s) \<and>
   isAccessorDecl (unusedContext\<lparr>isAccessorDecl := True\<rparr>) \<and>
   (\<exists>s. checkReferencedGenericParams (unusedContext\<lparr>isAccessorDecl := True\<rparr>) = Inr s \<and>
      diagnostics s = [] \<and>
      interfaceType s = getInterfaceType (unusedContext\<lparr>isAccessorDecl := True\<rparr>) \<and>
      \<not> isInvalid s) \<and>
   GenericTypeParamType (GenericParam 0 0) \<in>
     reached ((\<Union>t \<in> set [GenericTypeParamType (GenericParam 0 0)]. outermostTypeParameters t) \<union>
              outermostTypeParameters tyVoid) [] \<and>
   GenericTypeParamType (GenericParam 0 0) \<in>
     referencedBySpec ((\<Union>t \<in> set [GenericTypeParamType (GenericParam 0 0)]. genericParamsIn t) \<union>
                       genericParamsIn tyVoid) []"
proof -
  have c: "\<not> isAccessorDecl unusedContext"
    "getGenericParamList unusedContext = Some (GenericParam 0 0 # [GenericParam 0 1])"
    "getInterfaceType unusedContext = FunctionType [GenericTypeParamType (GenericParam 0 0)] tyVoid"
    by (simp_all add: unusedContext_def)
  have acc: "isAccessorDecl (unusedContext\<lparr>isAccessorDecl := True\<rparr>)" by simp
  have d: "(\<Union>t \<in> set [GenericTypeParamType (GenericParam 0 0)]. outermostTypeParameters t) \<union>
      outermostTypeParameters tyVoid = {GenericTypeParamType (GenericParam 0 0)}"
    by (simp add: tyVoid_def)
  have sig: "getRequirements (getGenericSignatureOfContext unusedContext) = []"
    "getGenericParams (getGenericSignatureOfContext unusedContext) =
       [GenericParam 0 0, GenericParam 0 1]"
    by (simp_all add: unusedContext_def)
  note inst = unreferenced_generic_params_diagnosed [of unusedContext "GenericParam 0 0"
      "[GenericParam 0 1]" "[GenericTypeParamType (GenericParam 0 0)]" tyVoid "GenericParam 0 0" "[]"]
  note inst2 = unreferenced_generic_params_diagnosed [of "unusedContext\<lparr>isAccessorDecl := True\<rparr>"
      "GenericParam 0 0" "[GenericParam 0 1]" "[GenericTypeParamType (GenericParam 0 0)]" tyVoid
      "GenericParam 0 0" "[]"]
  from inst c have "\<exists>s. checkReferencedGenericParams unusedContext = Inr s \<and>
         diagnostics s =
           map unreferenced_generic_parameter
             (filter (\<lambda>p. getDepth p = getDepth (GenericParam 0 0) \<and>
                GenericTypeParamType p \<notin>
                  reached ((\<Union>t \<in> set [GenericTypeParamType (GenericParam 0 0)].
                              outermostTypeParameters t) \<union> outermostTypeParameters tyVoid)
                    (getRequirements (getGenericSignatureOfContext unusedContext)))
                (getGenericParams (getGenericSignatureOfContext unusedContext))) \<and>
         interfaceType s = (if diagnostics s = [] then getInterfaceType unusedContext else ErrorType) \<and>
         isInvalid s = (diagnostics s \<noteq> [])"
    by blast
  then obtain s where s: "checkReferencedGenericParams unusedContext = Inr s"
    "diagnostics s = [unreferenced_generic_parameter (GenericParam 0 1)]"
    "interfaceType s = (if diagnostics s = [] then getInterfaceType unusedContext else ErrorType)"
    "isInvalid s = (diagnostics s \<noteq> [])"
    unfolding d sig reached_no_requirements by auto
  then have p1: "\<exists>s. checkReferencedGenericParams unusedContext = Inr s \<and>
      diagnostics s = [unreferenced_generic_parameter (GenericParam 0 1)] \<and>
      interfaceType s = ErrorType \<and> isInvalid s"
    by simp
  from inst2 acc have p2: "\<exists>s. checkReferencedGenericParams (unusedContext\<lparr>isAccessorDecl := True\<rparr>) = Inr s \<and>
      diagnostics s = [] \<and>
      interfaceType s = getInterfaceType (unusedContext\<lparr>isAccessorDecl := True\<rparr>) \<and>
      \<not> isInvalid s"
    by blast
  have r: "GenericTypeParamType (GenericParam 0 0) \<in>
     reached ((\<Union>t \<in> set [GenericTypeParamType (GenericParam 0 0)]. outermostTypeParameters t) \<union>
              outermostTypeParameters tyVoid) []"
    unfolding d by (rule reached.Direct) simp
  with inst have p3: "GenericTypeParamType (GenericParam 0 0) \<in>
     referencedBySpec ((\<Union>t \<in> set [GenericTypeParamType (GenericParam 0 0)]. genericParamsIn t) \<union>
                       genericParamsIn tyVoid) []"
    by blast
  from c acc p1 p2 r p3 show ?thesis by (intro conjI)
qed

theorem member_type_base_diagnosed:
  "(\<exists>s. checkReferencedGenericParams memberRequirementContext = Inr s \<and>
      diagnostics s = [unreferenced_generic_parameter (GenericParam 0 0)] \<and>
      interfaceType s = ErrorType \<and> isInvalid s) \<and>
   GenericTypeParamType (GenericParam 0 0) \<in>
     referencedBySpec (genericParamsIn (getInterfaceType memberRequirementContext))
       (getRequirements (getGenericSignatureOfContext memberRequirementContext)) \<and>
   (\<exists>s. checkReferencedGenericParams memberFormalContext = Inr s \<and>
      diagnostics s = [unreferenced_generic_parameter (GenericParam 0 0)] \<and>
      interfaceType s = ErrorType \<and> isInvalid s) \<and>
   GenericTypeParamType (GenericParam 0 0) \<in>
     referencedBySpec (genericParamsIn (getInterfaceType memberFormalContext))
       (getRequirements (getGenericSignatureOfContext memberFormalContext))"
proof -
  let ?T = "GenericTypeParamType (GenericParam 0 0)"
  let ?U = "GenericTypeParamType (GenericParam 0 1)"
  let ?TM = "DependentMemberType ?T ''M''"
  have c1: "\<not> isAccessorDecl memberRequirementContext"
    "getGenericParamList memberRequirementContext = Some (GenericParam 0 0 # [GenericParam 0 1])"
    "getInterfaceType memberRequirementContext = FunctionType [?U] tyVoid"
    by (simp_all add: memberRequirementContext_def)
  have d1: "(\<Union>t \<in> set [?U]. outermostTypeParameters t) \<union> outermostTypeParameters tyVoid = {?U}"
    by (simp add: tyVoid_def)
  have sig1: "getRequirements (getGenericSignatureOfContext memberRequirementContext) =
      [ConformanceReq ?T ''P'', SameTypeReq ?TM ?U]"
    "getGenericParams (getGenericSignatureOfContext memberRequirementContext) =
       [GenericParam 0 0, GenericParam 0 1]"
    by (simp_all add: memberRequirementContext_def)
  from checkReferencedGenericParams_result [OF c1]
  have p1: "\<exists>s. checkReferencedGenericParams memberRequirementContext = Inr s \<and>
      diagnostics s = [unreferenced_generic_parameter (GenericParam 0 0)] \<and>
      interfaceType s = ErrorType \<and> isInvalid s"
    unfolding d1 sig1 memberRequirement_reached by auto
  have q1: "?T \<in> referencedBySpec (genericParamsIn (getInterfaceType memberRequirementContext))
       (getRequirements (getGenericSignatureOfContext memberRequirementContext))"
  proof -
    have u: "?U \<in> referencedBySpec (genericParamsIn (FunctionType [?U] tyVoid))
        [ConformanceReq ?T ''P'', SameTypeReq ?TM ?U]"
      by (rule referencedBySpec.Mentioned) simp
    have "?T \<in> referencedBySpec (genericParamsIn (FunctionType [?U] tyVoid))
        [ConformanceReq ?T ''P'', SameTypeReq ?TM ?U]"
      by (rule referencedBySpec.ByMention [of "SameTypeReq ?TM ?U" _ ?U ?U _ ?TM ?T, OF _ _ _ u])
        simp_all
    then show ?thesis unfolding c1(3) sig1 .
  qed
  have c2: "\<not> isAccessorDecl memberFormalContext"
    "getGenericParamList memberFormalContext = Some (GenericParam 0 0 # [])"
    "getInterfaceType memberFormalContext = FunctionType [?TM] tyVoid"
    by (simp_all add: memberFormalContext_def)
  have d2: "(\<Union>t \<in> set [?TM]. outermostTypeParameters t) \<union> outermostTypeParameters tyVoid = {?TM}"
    by (simp add: tyVoid_def)
  have sig2: "getRequirements (getGenericSignatureOfContext memberFormalContext) =
      [ConformanceReq ?T ''P'']"
    "getGenericParams (getGenericSignatureOfContext memberFormalContext) = [GenericParam 0 0]"
    by (simp_all add: memberFormalContext_def)
  from checkReferencedGenericParams_result [OF c2]
  have p2: "\<exists>s. checkReferencedGenericParams memberFormalContext = Inr s \<and>
      diagnostics s = [unreferenced_generic_parameter (GenericParam 0 0)] \<and>
      interfaceType s = ErrorType \<and> isInvalid s"
    unfolding d2 sig2 memberFormal_reached by auto
  have q2: "?T \<in> referencedBySpec (genericParamsIn (getInterfaceType memberFormalContext))
       (getRequirements (getGenericSignatureOfContext memberFormalContext))"
    unfolding c2(3) by (rule referencedBySpec.Mentioned) simp
  from p1 q1 p2 q2 show ?thesis by (intro conjI)
qed

section \<open>Properties of the generic environment and of opaque result types\<close>

lemma visitWhereRequirements_calls:
  "fst (foldl (\<lambda>b req. visitWhereRequirement dcExt req b) start reqs) =
     fst start @ map AddRequirement reqs"
  by (induction reqs arbitrary: start) (simp_all add: visitWhereRequirement_def Let_def)

lemma checkGenericParamList_exact:
  "checkGenericParamList acc gpList parentSig =
     (if getParams gpList = [] then Inl EmptyArray
      else Inr (fst acc @ callsForList parentSig gpList,
                snd (foldl (\<lambda>b req. visitWhereRequirement (getExtensionContext gpList) req b)
                  (fst acc @ [AddGenericSignature parentSig] @
                     map AddGenericParameter (getParams gpList) @
                     map AddGenericParameterRequirements (getParams gpList), snd acc)
                  (getWhereRequirements gpList))))"
  by (simp add: checkGenericParamList_def Let_def callsForList_def prod_eq_iff
      visitWhereRequirements_calls)

lemma visitOuterToInner_exact:
  "visitOuterToInner gpList acc = Inr (b, diags) \<Longrightarrow>
     b = fst acc @ concat (map (callsForList None) (outerToInner gpList))"
proof (induction gpList acc arbitrary: b diags rule: visitOuterToInner.induct)
  case (1 ps ws dcExt start outer acc)
  let ?l = "GenericParamList ps ws dcExt start outer"
  show ?case
  proof (cases outer)
    case None
    with "1.prems" show ?thesis
      by (simp add: checkGenericParamList_exact split: if_splits)
  next
    case (Some outerGenericParams)
    with "1.prems" obtain acc' where o: "visitOuterToInner outerGenericParams acc = Inr acc'"
      and c: "checkGenericParamList acc' ?l None = Inr (b, diags)"
      by (auto split: sum.splits)
    from "1.IH" [OF Some, of "fst acc'" "snd acc'"] o
    have "fst acc' = fst acc @ concat (map (callsForList None) (outerToInner outerGenericParams))"
      by simp
    with c Some show ?thesis
      by (simp add: checkGenericParamList_exact split: if_splits)
  qed
qed

lemma visitOuterToInner_returns:
  "\<forall>l \<in> set (outerToInner gpList). getParams l \<noteq> [] \<Longrightarrow>
   \<exists>r. visitOuterToInner gpList acc = Inr r"
proof (induction gpList acc rule: visitOuterToInner.induct)
  case (1 ps ws dcExt start outer acc)
  show ?case
  proof (cases outer)
    case None
    with "1.prems" show ?thesis by (simp add: checkGenericParamList_exact)
  next
    case (Some outerGenericParams)
    from "1.prems" Some have "\<forall>l \<in> set (outerToInner outerGenericParams). getParams l \<noteq> []"
      by simp
    from "1.IH" [OF Some this] obtain r where "visitOuterToInner outerGenericParams acc = Inr r"
      by blast
    with "1.prems" Some show ?thesis by (simp add: checkGenericParamList_exact)
  qed
qed

lemma buildGenericEnvironment_exact:
  "buildGenericEnvironment tc gpList parentSig allowConcrete inferRequirements = Inr r \<Longrightarrow>
   builderRun r = Some (inferRequirements (seededBuilder gpList parentSig)) \<and>
   environment r =
     GenericEnvironment
       (computeGenericSignature tc (inferRequirements (seededBuilder gpList parentSig))
          (getSourceStart gpList) allowConcrete)"
proof (cases "getOuterParameters gpList \<noteq> None \<and> parentSig = None")
  case True
  assume h: "buildGenericEnvironment tc gpList parentSig allowConcrete inferRequirements = Inr r"
  with True obtain b diags where v: "visitOuterToInner gpList ([], []) = Inr (b, diags)"
    by (auto simp: buildGenericEnvironment_def split: sum.splits)
  from visitOuterToInner_exact [OF v] True
  have "b = seededBuilder gpList parentSig"
    by (simp add: seededBuilder_def listsChecked_def)
  with h v True show ?thesis by (auto simp: buildGenericEnvironment_def Let_def)
next
  case False
  assume h: "buildGenericEnvironment tc gpList parentSig allowConcrete inferRequirements = Inr r"
  with False obtain b diags where v: "checkGenericParamList ([], []) gpList parentSig = Inr (b, diags)"
    by (auto simp: buildGenericEnvironment_def split: sum.splits if_splits)
  with False have "b = seededBuilder gpList parentSig"
    by (auto simp: checkGenericParamList_exact seededBuilder_def listsChecked_def split: if_splits)
  with h v False show ?thesis by (auto simp: buildGenericEnvironment_def Let_def split: if_splits)
qed

lemma buildGenericEnvironment_returns:
  "\<forall>l \<in> set (listsChecked gpList parentSig). getParams l \<noteq> [] \<Longrightarrow>
   \<exists>r. buildGenericEnvironment tc gpList parentSig allowConcrete inferRequirements = Inr r"
proof (cases "getOuterParameters gpList \<noteq> None \<and> parentSig = None")
  case True
  assume "\<forall>l \<in> set (listsChecked gpList parentSig). getParams l \<noteq> []"
  with True have "\<forall>l \<in> set (outerToInner gpList). getParams l \<noteq> []"
    by (simp add: listsChecked_def)
  from visitOuterToInner_returns [OF this, of "([], [])"] True show ?thesis
    by (auto simp: buildGenericEnvironment_def Let_def)
next
  case False
  assume "\<forall>l \<in> set (listsChecked gpList parentSig). getParams l \<noteq> []"
  with False show ?thesis
    by (auto simp: buildGenericEnvironment_def Let_def listsChecked_def checkGenericParamList_exact)
qed

lemmas environment_defs = exampleTypeChecker_def arrayExtension_def arrayExtensionParams_def
  nestedExtensionParams_def exampleOpaqueArgs_def

lemma sorted_le_last:
  "sorted (xs :: nat list) \<Longrightarrow> y \<in> set xs \<Longrightarrow> y \<le> last xs"
  by (induction xs) auto

lemma sorted_last_Max:
  "sorted (xs :: nat list) \<Longrightarrow> xs \<noteq> [] \<Longrightarrow> last xs = Max (set xs)"
  by (rule Max_eqI [symmetric]) (simp_all add: sorted_le_last)

text \<open>
  C6. For an extension without trailing where-clause that need not infer requirements,
  whose nominal type has a generic signature whose last parameter has the depth of the
  last parameter of the extension's list, \<^verbatim>\<open>checkGenericEnvironment\<close> creates no builder
  and forms the environment from the nominal type's signature pointer itself. Without
  an extension, when requirements must be inferred, with a trailing where-clause, or
  when \<^verbatim>\<open>getExtendedTypeGenericDepth\<close> differs from the depth of the list, it is the
  builder branch that runs. That branch returns whenever the lists it checks have
  parameters, and forms the environment from what \<^verbatim>\<open>computeGenericSignature\<close> makes of a
  new builder that has received exactly \<^verbatim>\<open>seededBuilder\<close>, then the inferred requirements:
  the parent signature, the parameters of the list, their requirements and the
  where-clause; or, for a list with outer lists and no parent signature, the same for
  every list from the outermost to the innermost.
\<close>

theorem extension_signature_reused:
  "(ext = Some e \<and> \<not> mustInferRequirements \<and> getTrailingWhereClause e = None \<and>
    getSelfNominalTypeDecl e = Some nominal \<and>
    nominalGenericSignatureOfContext nominal = Some sig \<and>
    backDepth tc sig = Inr (getDepth (last (getParams gpList))) \<and> getParams gpList \<noteq> [] \<longrightarrow>
      checkGenericEnvironment tc gpList parentSig allowConcrete ext inferRequirements
        mustInferRequirements =
      Inr \<lparr>environment = GenericEnvironment sig, builderRun = None, paramListDiagnostics = []\<rparr>) \<and>
   (ext = None \<or> mustInferRequirements \<or>
    (\<exists>e'. ext = Some e' \<and>
       (getTrailingWhereClause e' \<noteq> None \<or>
        (\<exists>d. getExtendedTypeGenericDepth tc e' = Inr d \<and> getParams gpList \<noteq> [] \<and>
             d \<noteq> getDepth (last (getParams gpList))))) \<longrightarrow>
      checkGenericEnvironment tc gpList parentSig allowConcrete ext inferRequirements
        mustInferRequirements =
      buildGenericEnvironment tc gpList parentSig allowConcrete inferRequirements) \<and>
   (buildGenericEnvironment tc gpList parentSig allowConcrete inferRequirements = Inr r \<longrightarrow>
      builderRun r = Some (inferRequirements (seededBuilder gpList parentSig)) \<and>
      environment r =
        GenericEnvironment
          (computeGenericSignature tc (inferRequirements (seededBuilder gpList parentSig))
             (getSourceStart gpList) allowConcrete)) \<and>
   ((\<forall>l \<in> set (listsChecked gpList parentSig). getParams l \<noteq> []) \<longrightarrow>
      (\<exists>r. buildGenericEnvironment tc gpList parentSig allowConcrete inferRequirements = Inr r))"
proof (intro conjI impI)
  assume h: "ext = Some e \<and> \<not> mustInferRequirements \<and> getTrailingWhereClause e = None \<and>
    getSelfNominalTypeDecl e = Some nominal \<and>
    nominalGenericSignatureOfContext nominal = Some sig \<and>
    backDepth tc sig = Inr (getDepth (last (getParams gpList))) \<and> getParams gpList \<noteq> []"
  then obtain p ps where ps: "getParams gpList = p # ps" by (cases "getParams gpList") auto
  from h have "getExtendedTypeGenericDepth tc e = Inr (getDepth (last (getParams gpList)))"
    by (simp add: getExtendedTypeGenericDepth_def)
  with h ps show "checkGenericEnvironment tc gpList parentSig allowConcrete ext inferRequirements
        mustInferRequirements =
      Inr \<lparr>environment = GenericEnvironment sig, builderRun = None, paramListDiagnostics = []\<rparr>"
    by (simp add: checkGenericEnvironment_def reuseGenericEnvironment_def)
next
  assume h: "ext = None \<or> mustInferRequirements \<or>
    (\<exists>e'. ext = Some e' \<and>
       (getTrailingWhereClause e' \<noteq> None \<or>
        (\<exists>d. getExtendedTypeGenericDepth tc e' = Inr d \<and> getParams gpList \<noteq> [] \<and>
             d \<noteq> getDepth (last (getParams gpList)))))"
  show "checkGenericEnvironment tc gpList parentSig allowConcrete ext inferRequirements
        mustInferRequirements =
      buildGenericEnvironment tc gpList parentSig allowConcrete inferRequirements"
  proof (cases ext)
    case None
    then show ?thesis by (simp add: checkGenericEnvironment_def)
  next
    case (Some e')
    show ?thesis
    proof (cases "mustInferRequirements \<or> getTrailingWhereClause e' \<noteq> None")
      case True
      with Some show ?thesis by (simp add: checkGenericEnvironment_def)
    next
      case False
      with h Some obtain d where d: "getExtendedTypeGenericDepth tc e' = Inr d"
        "getParams gpList \<noteq> []" "d \<noteq> getDepth (last (getParams gpList))"
        by auto
      from d(2) obtain p ps where ps: "getParams gpList = p # ps"
        by (cases "getParams gpList") auto
      with Some False d show ?thesis by (simp add: checkGenericEnvironment_def)
    qed
  qed
next
  assume "buildGenericEnvironment tc gpList parentSig allowConcrete inferRequirements = Inr r"
  from buildGenericEnvironment_exact [OF this]
  show "builderRun r = Some (inferRequirements (seededBuilder gpList parentSig))"
    and "environment r =
        GenericEnvironment
          (computeGenericSignature tc (inferRequirements (seededBuilder gpList parentSig))
             (getSourceStart gpList) allowConcrete)"
    by simp_all
next
  assume "\<forall>l \<in> set (listsChecked gpList parentSig). getParams l \<noteq> []"
  then show "\<exists>r. buildGenericEnvironment tc gpList parentSig allowConcrete inferRequirements = Inr r"
    by (rule buildGenericEnvironment_returns)
qed

theorem extension_signature_reused_witness:
  "getTrailingWhereClause arrayExtension = None \<and>
   getSelfNominalTypeDecl arrayExtension = Some \<lparr>nominalGenericSignatureOfContext = Some 7\<rparr> \<and>
   nominalGenericSignatureOfContext \<lparr>nominalGenericSignatureOfContext = Some 7\<rparr> = Some 7 \<and>
   backDepth exampleTypeChecker 7 = Inr (getDepth (last (getParams arrayExtensionParams))) \<and>
   getParams arrayExtensionParams \<noteq> [] \<and>
   checkGenericEnvironment exampleTypeChecker arrayExtensionParams None False (Some arrayExtension)
     (\<lambda>b. b) False =
   Inr \<lparr>environment = GenericEnvironment 7, builderRun = None, paramListDiagnostics = []\<rparr> \<and>
   checkGenericEnvironment exampleTypeChecker arrayExtensionParams None False (Some arrayExtension)
     (\<lambda>b. b) True =
   Inr \<lparr>environment = GenericEnvironment 103,
         builderRun = Some [AddGenericSignature None, AddGenericParameter (GenericParam 0 0),
                            AddGenericParameterRequirements (GenericParam 0 0)],
         paramListDiagnostics = []\<rparr> \<and>
   listsChecked nestedExtensionParams None = [arrayExtensionParams, nestedExtensionParams] \<and>
   getParams arrayExtensionParams \<noteq> [] \<and> getParams nestedExtensionParams \<noteq> [] \<and>
   checkGenericEnvironment exampleTypeChecker nestedExtensionParams None False (Some arrayExtension)
     (\<lambda>b. b) True =
   Inr \<lparr>environment = GenericEnvironment 107,
         builderRun =
           Some [AddGenericSignature None, AddGenericParameter (GenericParam 0 0),
                 AddGenericParameterRequirements (GenericParam 0 0),
                 AddGenericSignature None, AddGenericParameter (GenericParam 1 0),
                 AddGenericParameterRequirements (GenericParam 1 0),
                 AddRequirement (ConformanceReq (GenericTypeParamType (GenericParam 1 0))
                   ''Equatable'')],
         paramListDiagnostics = []\<rparr>"
proof -
  let ?nominal = "\<lparr>nominalGenericSignatureOfContext = Some 7\<rparr>"
  let ?nested = "[AddGenericSignature None, AddGenericParameter (GenericParam 0 0),
                 AddGenericParameterRequirements (GenericParam 0 0),
                 AddGenericSignature None, AddGenericParameter (GenericParam 1 0),
                 AddGenericParameterRequirements (GenericParam 1 0),
                 AddRequirement (ConformanceReq (GenericTypeParamType (GenericParam 1 0))
                   ''Equatable'')]"
  have h: "getTrailingWhereClause arrayExtension = None"
    "getSelfNominalTypeDecl arrayExtension = Some ?nominal"
    "nominalGenericSignatureOfContext ?nominal = Some 7"
    "backDepth exampleTypeChecker 7 = Inr (getDepth (last (getParams arrayExtensionParams)))"
    "getParams arrayExtensionParams \<noteq> []"
    by (simp_all add: environment_defs backDepth_def)
  have lists: "listsChecked nestedExtensionParams None = [arrayExtensionParams, nestedExtensionParams]"
    by (simp add: listsChecked_def environment_defs)
  have params: "getParams arrayExtensionParams \<noteq> []" "getParams nestedExtensionParams \<noteq> []"
    by (simp_all add: environment_defs)
  have seeded: "seededBuilder arrayExtensionParams None =
      [AddGenericSignature None, AddGenericParameter (GenericParam 0 0),
       AddGenericParameterRequirements (GenericParam 0 0)]"
    "seededBuilder nestedExtensionParams None = ?nested"
    by (simp_all add: seededBuilder_def listsChecked_def callsForList_def environment_defs)
  have sigs: "computeGenericSignature exampleTypeChecker
      [AddGenericSignature None, AddGenericParameter (GenericParam 0 0),
       AddGenericParameterRequirements (GenericParam 0 0)]
      (getSourceStart arrayExtensionParams) False = 103"
    "computeGenericSignature exampleTypeChecker ?nested (getSourceStart nestedExtensionParams)
       False = 107"
    by (simp_all add: environment_defs)
  have diags: "paramListDiagnostics r = []"
    if "buildGenericEnvironment exampleTypeChecker arrayExtensionParams None False (\<lambda>b. b) = Inr r \<or>
        buildGenericEnvironment exampleTypeChecker nestedExtensionParams None False (\<lambda>b. b) = Inr r"
    for r
    using that
    by (auto simp: buildGenericEnvironment_def checkGenericParamList_def visitWhereRequirement_def
        environment_defs Let_def)
  note i1 = extension_signature_reused [of "Some arrayExtension" arrayExtension False ?nominal 7
      exampleTypeChecker arrayExtensionParams None False "\<lambda>b. b"]
  from i1 h have p1: "checkGenericEnvironment exampleTypeChecker arrayExtensionParams None False
      (Some arrayExtension) (\<lambda>b. b) False =
    Inr \<lparr>environment = GenericEnvironment 7, builderRun = None, paramListDiagnostics = []\<rparr>"
    by simp
  have built: "checkGenericEnvironment exampleTypeChecker gpList None False (Some arrayExtension)
      (\<lambda>b. b) True =
    Inr \<lparr>environment =
           GenericEnvironment (computeGenericSignature exampleTypeChecker
             (seededBuilder gpList None) (getSourceStart gpList) False),
         builderRun = Some (seededBuilder gpList None), paramListDiagnostics = []\<rparr>"
    if g: "gpList = arrayExtensionParams \<or> gpList = nestedExtensionParams" for gpList
  proof -
    from g lists params have ne: "\<forall>l \<in> set (listsChecked gpList None). getParams l \<noteq> []"
      by (auto simp: listsChecked_def environment_defs)
    note i = extension_signature_reused [of "Some arrayExtension" arrayExtension True ?nominal 7
        exampleTypeChecker gpList None False "\<lambda>b. b"]
    from i have same: "checkGenericEnvironment exampleTypeChecker gpList None False
        (Some arrayExtension) (\<lambda>b. b) True =
      buildGenericEnvironment exampleTypeChecker gpList None False (\<lambda>b. b)"
      by simp
    from i ne obtain r where
      r: "buildGenericEnvironment exampleTypeChecker gpList None False (\<lambda>b. b) = Inr r"
      by blast
    from extension_signature_reused [of "Some arrayExtension" arrayExtension True ?nominal 7
        exampleTypeChecker gpList None False "\<lambda>b. b" r] r
    have "builderRun r = Some (seededBuilder gpList None)"
      "environment r = GenericEnvironment (computeGenericSignature exampleTypeChecker
             (seededBuilder gpList None) (getSourceStart gpList) False)"
      by simp_all
    moreover from diags [of r] g r have "paramListDiagnostics r = []" by auto
    ultimately have "r = \<lparr>environment =
           GenericEnvironment (computeGenericSignature exampleTypeChecker
             (seededBuilder gpList None) (getSourceStart gpList) False),
         builderRun = Some (seededBuilder gpList None), paramListDiagnostics = []\<rparr>"
      by (cases r) simp
    with same r show ?thesis by simp
  qed
  from built [of arrayExtensionParams]
  have p2: "checkGenericEnvironment exampleTypeChecker arrayExtensionParams None False
      (Some arrayExtension) (\<lambda>b. b) True =
    Inr \<lparr>environment = GenericEnvironment 103,
         builderRun = Some [AddGenericSignature None, AddGenericParameter (GenericParam 0 0),
                            AddGenericParameterRequirements (GenericParam 0 0)],
         paramListDiagnostics = []\<rparr>"
    unfolding seeded sigs by simp
  from built [of nestedExtensionParams]
  have p3: "checkGenericEnvironment exampleTypeChecker nestedExtensionParams None False
      (Some arrayExtension) (\<lambda>b. b) True =
    Inr \<lparr>environment = GenericEnvironment 107, builderRun = Some ?nested,
         paramListDiagnostics = []\<rparr>"
    unfolding seeded sigs by simp
  from h p1 p2 lists params p3 show ?thesis by (intro conjI)
qed

text \<open>
  C7. For a declaration that is not a protocol requirement, has no opaque result type
  declaration yet, and whose constraint validates to a class or existential type, the
  builder receives the outer signature (if there is one), then exactly one generic
  parameter, of index 0 and of depth \<^verbatim>\<open>d\<close>: 0 without an outer signature, otherwise one
  more than the depth of the last parameter of the outer signature, which is its
  deepest when the parameters are in order of depth and the depth does not overflow.
  Then come the requirements on that parameter: for a class bound the one superclass
  requirement; for an existential bound the superclass of its layout if any, one
  conformance per protocol, and its layout constraint if any. The signature computed
  from these calls is recorded, with the parameter, on the opaque type declaration,
  whose archetype is returned.
\<close>

theorem opaque_result_type_signature:
  "(\<not> isProtocolRequirementInProtocol a \<and> getOpaqueResultTypeDecl a = None \<and>
    \<not> validationError a \<and> (constraintIsClass a \<or> constraintIsExistential a) \<and>
    (case outerGenericSignature a of
       None \<Rightarrow> d = 0
     | Some outer \<Rightarrow> \<exists>dd. backDepth tc outer = Inr dd \<and> d = dd + 1) \<longrightarrow>
      (\<exists>r b reqs.
         getOrCreateOpaqueResultType tc a = Inr r \<and> opaqueBuilder r = Some b \<and>
         b = (case outerGenericSignature a of
                None \<Rightarrow> []
              | Some outer \<Rightarrow> [AddGenericSignature (Some outer)]) @
             AddGenericParameter (GenericParam d 0) # map AddRequirement reqs \<and>
         [p. AddGenericParameter p \<leftarrow> b] = [GenericParam d 0] \<and>
         (constraintIsClass a \<longrightarrow>
            reqs = [SuperclassReq (GenericTypeParamType (GenericParam d 0)) (constraintType a)]) \<and>
         (\<not> constraintIsClass a \<longrightarrow>
            reqs =
              (case getSuperclass (getExistentialLayout a) of
                 None \<Rightarrow> []
               | Some superclass \<Rightarrow>
                   [SuperclassReq (GenericTypeParamType (GenericParam d 0)) superclass]) @
              map (ConformanceReq (GenericTypeParamType (GenericParam d 0)))
                (getProtocols (getExistentialLayout a)) @
              (case getLayoutConstraint (getExistentialLayout a) of
                 None \<Rightarrow> []
               | Some layout \<Rightarrow> [LayoutReq (GenericTypeParamType (GenericParam d 0)) layout])) \<and>
         setOpaqueResultTypeDecl r =
           Some \<lparr>getOpaqueInterfaceGenericSignature = computeGenericSignature tc b None False,
                 getUnderlyingInterfaceType = GenericParam d 0\<rparr> \<and>
         resultType r =
           OpaqueTypeArchetypeType (computeGenericSignature tc b None False) (GenericParam d 0))) \<and>
   (outerGenericSignature a = Some outer \<and> signatureAt tc outer = Some s \<and>
    getGenericParams s \<noteq> [] \<and> sorted (map (\<lambda>p. unat (getDepth p)) (getGenericParams s)) \<and>
    unat (getDepth (last (getGenericParams s))) < 2 ^ 32 - 1 \<longrightarrow>
      (\<exists>dd. backDepth tc outer = Inr dd \<and>
         unat (dd + 1) = Max ((\<lambda>p. unat (getDepth p)) ` set (getGenericParams s)) + 1))"
proof (intro conjI impI)
  assume h: "\<not> isProtocolRequirementInProtocol a \<and> getOpaqueResultTypeDecl a = None \<and>
    \<not> validationError a \<and> (constraintIsClass a \<or> constraintIsExistential a) \<and>
    (case outerGenericSignature a of
       None \<Rightarrow> d = 0
     | Some outer \<Rightarrow> \<exists>dd. backDepth tc outer = Inr dd \<and> d = dd + 1)"
  let ?P = "GenericParam d 0"
  let ?prefix = "case outerGenericSignature a of
                None \<Rightarrow> []
              | Some outer \<Rightarrow> [AddGenericSignature (Some outer)]"
  let ?b = "?prefix @ AddGenericParameter ?P # map AddRequirement (opaqueRequirements a ?P)"
  let ?sig = "computeGenericSignature tc ?b None False"
  let ?r = "\<lparr>resultType = OpaqueTypeArchetypeType ?sig ?P,
             opaqueDiagnostics = (if availabilityCheckFails a then [opaque_type_unavailable] else []),
             opaqueBuilder = Some ?b,
             setOpaqueResultTypeDecl =
               Some \<lparr>getOpaqueInterfaceGenericSignature = ?sig,
                     getUnderlyingInterfaceType = ?P\<rparr>\<rparr>"
  have run: "getOrCreateOpaqueResultType tc a = Inr ?r"
    using h
    by (cases "outerGenericSignature a")
      (auto simp: getOrCreateOpaqueResultType_def Let_def getDeclaredInterfaceType_def)
  have one: "[p. AddGenericParameter p \<leftarrow> ?b] = [?P]"
  proof -
    have "[p. AddGenericParameter p \<leftarrow> map AddRequirement rs] = []" for rs
      by (induction rs) simp_all
    then show ?thesis by (cases "outerGenericSignature a") simp_all
  qed
  have cls: "constraintIsClass a \<longrightarrow>
      opaqueRequirements a ?P = [SuperclassReq (GenericTypeParamType ?P) (constraintType a)]"
    by (simp add: opaqueRequirements_def)
  have ex: "\<not> constraintIsClass a \<longrightarrow>
      opaqueRequirements a ?P =
              (case getSuperclass (getExistentialLayout a) of
                 None \<Rightarrow> []
               | Some superclass \<Rightarrow> [SuperclassReq (GenericTypeParamType ?P) superclass]) @
              map (ConformanceReq (GenericTypeParamType ?P))
                (getProtocols (getExistentialLayout a)) @
              (case getLayoutConstraint (getExistentialLayout a) of
                 None \<Rightarrow> []
               | Some layout \<Rightarrow> [LayoutReq (GenericTypeParamType ?P) layout])"
    by (simp add: opaqueRequirements_def Let_def)
  show "\<exists>r b reqs.
         getOrCreateOpaqueResultType tc a = Inr r \<and> opaqueBuilder r = Some b \<and>
         b = ?prefix @ AddGenericParameter ?P # map AddRequirement reqs \<and>
         [p. AddGenericParameter p \<leftarrow> b] = [?P] \<and>
         (constraintIsClass a \<longrightarrow>
            reqs = [SuperclassReq (GenericTypeParamType ?P) (constraintType a)]) \<and>
         (\<not> constraintIsClass a \<longrightarrow>
            reqs =
              (case getSuperclass (getExistentialLayout a) of
                 None \<Rightarrow> []
               | Some superclass \<Rightarrow> [SuperclassReq (GenericTypeParamType ?P) superclass]) @
              map (ConformanceReq (GenericTypeParamType ?P))
                (getProtocols (getExistentialLayout a)) @
              (case getLayoutConstraint (getExistentialLayout a) of
                 None \<Rightarrow> []
               | Some layout \<Rightarrow> [LayoutReq (GenericTypeParamType ?P) layout])) \<and>
         setOpaqueResultTypeDecl r =
           Some \<lparr>getOpaqueInterfaceGenericSignature = computeGenericSignature tc b None False,
                 getUnderlyingInterfaceType = ?P\<rparr> \<and>
         resultType r =
           OpaqueTypeArchetypeType (computeGenericSignature tc b None False) ?P"
    apply (rule exI [of _ ?r])
    apply (rule exI [of _ ?b])
    apply (rule exI [of _ "opaqueRequirements a ?P"])
    using run one cls ex apply simp
    done
next
  assume h: "outerGenericSignature a = Some outer \<and> signatureAt tc outer = Some s \<and>
    getGenericParams s \<noteq> [] \<and> sorted (map (\<lambda>p. unat (getDepth p)) (getGenericParams s)) \<and>
    unat (getDepth (last (getGenericParams s))) < 2 ^ 32 - 1"
  let ?ps = "getGenericParams s"
  from h have bd: "backDepth tc outer = Inr (getDepth (last ?ps))"
    by (cases ?ps) (simp_all add: backDepth_def)
  from h have "last (map (\<lambda>p. unat (getDepth p)) ?ps) = Max (set (map (\<lambda>p. unat (getDepth p)) ?ps))"
    by (intro sorted_last_Max) simp_all
  with h have mx: "unat (getDepth (last ?ps)) = Max ((\<lambda>p. unat (getDepth p)) ` set ?ps)"
    by (simp add: last_map)
  from h have "unat (getDepth (last ?ps) + 1) = unat (getDepth (last ?ps)) + 1"
    using unat_add_lem [of "getDepth (last ?ps)" 1] by simp
  with bd mx show "\<exists>dd. backDepth tc outer = Inr dd \<and>
         unat (dd + 1) = Max ((\<lambda>p. unat (getDepth p)) ` set (getGenericParams s)) + 1"
    by simp
qed


theorem opaque_result_type_signature_witness:
  "\<not> isProtocolRequirementInProtocol exampleOpaqueArgs \<and>
   getOpaqueResultTypeDecl exampleOpaqueArgs = None \<and>
   \<not> validationError exampleOpaqueArgs \<and> constraintIsExistential exampleOpaqueArgs \<and>
   outerGenericSignature exampleOpaqueArgs = Some 7 \<and>
   signatureAt exampleTypeChecker 7 =
     Some \<lparr>getGenericParams = [GenericParam 0 0], getRequirements = []\<rparr> \<and>
   backDepth exampleTypeChecker 7 = Inr 0 \<and>
   unat (0 + 1 :: 32 word) = Max ((\<lambda>p. unat (getDepth p)) ` set [GenericParam 0 0]) + 1 \<and>
   getOrCreateOpaqueResultType exampleTypeChecker exampleOpaqueArgs =
     Inr \<lparr>resultType = OpaqueTypeArchetypeType 105 (GenericParam 1 0),
          opaqueDiagnostics = [],
          opaqueBuilder =
            Some [AddGenericSignature (Some 7), AddGenericParameter (GenericParam 1 0),
                  AddRequirement (SuperclassReq (GenericTypeParamType (GenericParam 1 0))
                    (NominalType ''Base'' [])),
                  AddRequirement (ConformanceReq (GenericTypeParamType (GenericParam 1 0))
                    ''Equatable''),
                  AddRequirement (LayoutReq (GenericTypeParamType (GenericParam 1 0))
                    ClassLayout)],
          setOpaqueResultTypeDecl =
            Some \<lparr>getOpaqueInterfaceGenericSignature = 105,
                  getUnderlyingInterfaceType = GenericParam 1 0\<rparr>\<rparr>"
proof -
  let ?s = "\<lparr>getGenericParams = [GenericParam 0 0], getRequirements = []\<rparr>"
  let ?T = "GenericTypeParamType (GenericParam 1 0)"
  let ?b = "[AddGenericSignature (Some 7), AddGenericParameter (GenericParam 1 0),
             AddRequirement (SuperclassReq ?T (NominalType ''Base'' [])),
             AddRequirement (ConformanceReq ?T ''Equatable''),
             AddRequirement (LayoutReq ?T ClassLayout)]"
  have h: "\<not> isProtocolRequirementInProtocol exampleOpaqueArgs"
    "getOpaqueResultTypeDecl exampleOpaqueArgs = None"
    "\<not> validationError exampleOpaqueArgs" "constraintIsExistential exampleOpaqueArgs"
    "outerGenericSignature exampleOpaqueArgs = Some 7"
    "signatureAt exampleTypeChecker 7 = Some ?s"
    "backDepth exampleTypeChecker 7 = Inr 0"
    by (simp_all add: environment_defs backDepth_def)
  have more_h: "\<not> constraintIsClass exampleOpaqueArgs"
    "getExistentialLayout exampleOpaqueArgs =
       \<lparr>getSuperclass = Some (NominalType ''Base'' []), getProtocols = [''Equatable''],
        getLayoutConstraint = Some ClassLayout\<rparr>"
    "\<not> availabilityCheckFails exampleOpaqueArgs"
    by (simp_all add: environment_defs)
  have sig: "computeGenericSignature exampleTypeChecker ?b None False = 105"
    by (simp add: environment_defs)
  note inst = opaque_result_type_signature [of exampleOpaqueArgs 1 exampleTypeChecker 7 ?s]
  from inst h have
    "\<exists>dd. backDepth exampleTypeChecker 7 = Inr dd \<and>
       unat (dd + 1) = Max ((\<lambda>p. unat (getDepth p)) ` set (getGenericParams ?s)) + 1"
    by simp
  with h(7) have depth:
    "unat (0 + 1 :: 32 word) = Max ((\<lambda>p. unat (getDepth p)) ` set [GenericParam 0 0]) + 1"
    by simp
  from inst h more_h obtain r where
    r: "getOrCreateOpaqueResultType exampleTypeChecker exampleOpaqueArgs = Inr r"
      "opaqueBuilder r = Some ?b"
      "setOpaqueResultTypeDecl r =
         Some \<lparr>getOpaqueInterfaceGenericSignature =
                 computeGenericSignature exampleTypeChecker ?b None False,
               getUnderlyingInterfaceType = GenericParam 1 0\<rparr>"
      "resultType r =
         OpaqueTypeArchetypeType (computeGenericSignature exampleTypeChecker ?b None False)
           (GenericParam 1 0)"
    by auto
  have diags: "opaqueDiagnostics r = []"
    using r(1) by (simp add: getOrCreateOpaqueResultType_def environment_defs Let_def
        getDeclaredInterfaceType_def backDepth_def) auto
  have "r = \<lparr>resultType = OpaqueTypeArchetypeType 105 (GenericParam 1 0),
          opaqueDiagnostics = [],
          opaqueBuilder = Some ?b,
          setOpaqueResultTypeDecl =
            Some \<lparr>getOpaqueInterfaceGenericSignature = 105,
                  getUnderlyingInterfaceType = GenericParam 1 0\<rparr>\<rparr>"
    using r(2-4) diags unfolding sig by (cases r) simp
  with r(1) have run: "getOrCreateOpaqueResultType exampleTypeChecker exampleOpaqueArgs =
     Inr \<lparr>resultType = OpaqueTypeArchetypeType 105 (GenericParam 1 0),
          opaqueDiagnostics = [],
          opaqueBuilder = Some ?b,
          setOpaqueResultTypeDecl =
            Some \<lparr>getOpaqueInterfaceGenericSignature = 105,
                  getUnderlyingInterfaceType = GenericParam 1 0\<rparr>\<rparr>"
    by simp
  from h depth run show ?thesis by (intro conjI)
qed

section \<open>Properties of the signature builder\<close>

















text \<open>The two runs.\<close>

lemma ty_order [simp]: "min tyU tyT = tyT" "min tyT tyU = tyT" "tyT \<noteq> tyU" "tyU \<noteq> tyT"
  by (simp_all add: min_def less_eq_ty_def tyU_def tyT_def paramT_def)

lemma isTypeParameter_example [simp]: "isTypeParameter tyT" "isTypeParameter tyU"
  by (simp_all add: tyT_def tyU_def)

lemma run1: "runBuilder exampleBuilderContext exampleCalls =
  \<lparr>parameters = [paramT, GenericParam 0 1],
   representative = (\<lambda>t. relabel tyU tyT t),
   members = [tyT, tyU, tyU, tyT, tyU, tyT, tyU],
   constraints = [ConformanceReq tyU ''Equatable'', SuperclassReq tyT (NominalType ''Base'' []),
                  SuperclassReq tyU (NominalType ''Derived'' [])],
   conflicts = []\<rparr>"
  apply (simp add: runBuilder_def exampleCalls_def applyCall_def addRequirement_def
      addGenericParameter_def emptyBuilder_def exampleBuilderContext_def)
  apply (simp add: classBounds_def classConcreteTypes_def incompatible_def List.map_filter_def
      relabel_def tyT_def [symmetric] tyU_def [symmetric])
  done


lemma relabel_example [simp]: "relabel tyU tyT tyU = tyT" "relabel tyU tyT tyT = tyT"
  by (simp_all add: relabel_def)

lemma requirement_order:
  "ConformanceReq tyT ''Equatable'' \<le> SuperclassReq tyT (NominalType ''Derived'' [])"
  "SuperclassReq tyT (NominalType ''Derived'' []) \<le> SameTypeReq tyT tyU"
  "ConformanceReq tyT ''Equatable'' \<le> SameTypeReq tyT tyU"
  by (simp_all add: less_eq_requirement_def)

lemma sig1: "computeMinimizedSignature (isSubclassOf exampleBuilderContext)
    (runBuilder exampleBuilderContext exampleCalls) =
  \<lparr>getGenericParams = [paramT, GenericParam 0 1],
   getRequirements = [ConformanceReq tyT ''Equatable'',
                      SuperclassReq tyT (NominalType ''Derived'' []),
                      SameTypeReq tyT tyU]\<rparr>"
  unfolding run1
  by (simp add: computeMinimizedSignature_def canonicalConstraints_def sameTypeRequirements_def
      impliedBound_def exampleBuilderContext_def requirement_order)






end
